theory Spec2Isabelle
  imports Complex_Main "HOL-Library.Multiset"
begin

section \<open>Python values and exceptions\<close>

text \<open>
  The program is \<^verbatim>\<open>check_chats.py\<close>. It reads JSON responses through
  subscripts (\<^verbatim>\<open>resp[0]["data"]...\<close>), so a response is modelled as the
  value \<^verbatim>\<open>json.loads\<close> builds: \<open>JObj\<close> holds the items of a dict in
  order (its keys are distinct), \<open>JArr\<close> a list. Python's floats are
  idealised as rationals: rounding, infinities, NaN and the conversion of an integer too
  large for a float are not modelled. A string is the list of its characters.
\<close>

datatype json =
    JNull
  | JBool bool
  | JInt int
  | JFloat rat
  | JStr string
  | JArr "json list"
  | JObj "(string \<times> json) list"

text \<open>
  Every exception the program can raise is a value. \<open>TimeoutException\<close> stands for
  \<^verbatim>\<open>httpx.TimeoutException\<close> and its subclasses, \<open>NetworkError\<close> for every other
  failure of the request, \<open>RetryError\<close> for \<^verbatim>\<open>tenacity.RetryError\<close>.
\<close>

datatype error =
    TimeoutException
  | NetworkError
  | JSONDecodeError
  | KeyError
  | IndexError
  | TypeError
  | ValueError
  | ValidationError
  | RetryError
  | OverflowError

text \<open>Sequencing of fallible steps: the first exception ends the computation.\<close>

fun rbind :: "error + 'a \<Rightarrow> ('a \<Rightarrow> error + 'b) \<Rightarrow> error + 'b" where
  "rbind (Inl e) f = Inl e"
| "rbind (Inr x) f = f x"

text \<open>\<^verbatim>\<open>xs[i]\<close> on a sequence: a negative index counts from the end.\<close>

definition py_index :: "'a list \<Rightarrow> int \<Rightarrow> error + 'a" where
  "py_index xs i =
     (if 0 \<le> i \<and> i < int (length xs) then Inr (xs ! nat i)
      else if i < 0 \<and> - i \<le> int (length xs) then Inr (xs ! nat (int (length xs) + i))
      else Inl IndexError)"

text \<open>\<^verbatim>\<open>x["key"]\<close>: only a dict takes a string subscript.\<close>

fun getitem_str :: "json \<Rightarrow> string \<Rightarrow> error + json" where
  "getitem_str (JObj kvs) k = (case map_of kvs k of None \<Rightarrow> Inl KeyError | Some v \<Rightarrow> Inr v)"
| "getitem_str JNull k = Inl TypeError"
| "getitem_str (JBool b) k = Inl TypeError"
| "getitem_str (JInt n) k = Inl TypeError"
| "getitem_str (JFloat q) k = Inl TypeError"
| "getitem_str (JStr s) k = Inl TypeError"
| "getitem_str (JArr xs) k = Inl TypeError"

text \<open>
  \<^verbatim>\<open>x[i]\<close> with an integer: a list or a string is indexed, a dict parsed from
  JSON has string keys only and raises KeyError, anything else is not subscriptable.
\<close>

fun getitem_int :: "json \<Rightarrow> int \<Rightarrow> error + json" where
  "getitem_int (JArr xs) i = py_index xs i"
| "getitem_int (JStr s) i = rbind (py_index s i) (\<lambda>c. Inr (JStr [c]))"
| "getitem_int (JObj kvs) i = Inl KeyError"
| "getitem_int JNull i = Inl TypeError"
| "getitem_int (JBool b) i = Inl TypeError"
| "getitem_int (JInt n) i = Inl TypeError"
| "getitem_int (JFloat q) i = Inl TypeError"

text \<open>A chain of string subscripts, left to right.\<close>

fun getpath :: "json \<Rightarrow> string list \<Rightarrow> error + json" where
  "getpath j [] = Inr j"
| "getpath j (k # ks) = rbind (getitem_str j k) (\<lambda>v. getpath v ks)"

text \<open>Truth value of an object in a condition (\<^verbatim>\<open>if x\<close>).\<close>

fun truthy :: "json \<Rightarrow> bool" where
  "truthy JNull = False"
| "truthy (JBool b) = b"
| "truthy (JInt n) = (n \<noteq> 0)"
| "truthy (JFloat q) = (q \<noteq> 0)"
| "truthy (JStr s) = (s \<noteq> [])"
| "truthy (JArr xs) = (xs \<noteq> [])"
| "truthy (JObj kvs) = (kvs \<noteq> [])"

text \<open>\<^verbatim>\<open>for i in x\<close>: a list gives its elements, a dict its keys, a string its characters.\<close>

fun py_iter :: "json \<Rightarrow> error + json list" where
  "py_iter (JArr xs) = Inr xs"
| "py_iter (JObj kvs) = Inr (map (\<lambda>kv. JStr (fst kv)) kvs)"
| "py_iter (JStr s) = Inr (map (\<lambda>c. JStr [c]) s)"
| "py_iter JNull = Inl TypeError"
| "py_iter (JBool b) = Inl TypeError"
| "py_iter (JInt n) = Inl TypeError"
| "py_iter (JFloat q) = Inl TypeError"

text \<open>A list comprehension \<^verbatim>\<open>[f(x) for x in xs]\<close> whose body can raise.\<close>

fun comprehension :: "('a \<Rightarrow> error + 'b) \<Rightarrow> 'a list \<Rightarrow> error + 'b list" where
  "comprehension f [] = Inr []"
| "comprehension f (x # xs) =
     rbind (f x) (\<lambda>y. rbind (comprehension f xs) (\<lambda>ys. Inr (y # ys)))"

text \<open>A list comprehension \<^verbatim>\<open>[x for x in xs if c(x)]\<close> whose condition can raise.\<close>

fun comprehension_if :: "('a \<Rightarrow> error + bool) \<Rightarrow> 'a list \<Rightarrow> error + 'a list" where
  "comprehension_if c [] = Inr []"
| "comprehension_if c (x # xs) =
     rbind (c x) (\<lambda>b. rbind (comprehension_if c xs) (\<lambda>ys. Inr (if b then x # ys else ys)))"

section \<open>Records of the chat log\<close>

text \<open>
  \<^verbatim>\<open>datetime.fromisoformat\<close> is a parameter \<open>fromiso\<close> of the model: it maps a
  string to a naive or an aware instant (in seconds), or to \<open>None\<close> where Python raises
  ValueError. Subtracting a naive and an aware datetime raises TypeError.
\<close>

datatype datetime = Naive rat | Aware rat

fun fromisoformat :: "(string \<Rightarrow> datetime option) \<Rightarrow> json \<Rightarrow> error + datetime" where
  "fromisoformat fromiso (JStr s) =
     (case fromiso s of None \<Rightarrow> Inl ValueError | Some d \<Rightarrow> Inr d)"
| "fromisoformat fromiso JNull = Inl TypeError"
| "fromisoformat fromiso (JBool b) = Inl TypeError"
| "fromisoformat fromiso (JInt n) = Inl TypeError"
| "fromisoformat fromiso (JFloat q) = Inl TypeError"
| "fromisoformat fromiso (JArr xs) = Inl TypeError"
| "fromisoformat fromiso (JObj kvs) = Inl TypeError"

fun total_seconds_sub :: "datetime \<Rightarrow> datetime \<Rightarrow> error + rat" where
  "total_seconds_sub (Naive a) (Naive b) = Inr (a - b)"
| "total_seconds_sub (Aware a) (Aware b) = Inr (a - b)"
| "total_seconds_sub (Naive a) (Aware b) = Inl TypeError"
| "total_seconds_sub (Aware a) (Naive b) = Inl TypeError"

definition calculate_time_difference ::
  "(string \<Rightarrow> datetime option) \<Rightarrow> json \<Rightarrow> json \<Rightarrow> error + rat" where
  "calculate_time_difference fromiso start_time current_time =
     rbind (fromisoformat fromiso start_time) (\<lambda>start_datetime.
     rbind (fromisoformat fromiso current_time) (\<lambda>current_datetime.
       total_seconds_sub current_datetime start_datetime))"

text \<open>
  \<^verbatim>\<open>SimpleChat\<close>. The fields \<^verbatim>\<open>id\<close> and \<^verbatim>\<open>text\<close> are named \<open>chat_id\<close> and
  \<open>chat_text\<close> here.
\<close>

record SimpleChat =
  chat_id :: string
  cursor :: string
  login :: string
  displayName :: string
  user_id :: string
  chat_text :: string
  offset :: rat

text \<open>The validation of a \<^verbatim>\<open>str\<close> field: any other JSON value is rejected.\<close>

fun str_field :: "json \<Rightarrow> error + string" where
  "str_field (JStr s) = Inr s"
| "str_field JNull = Inl ValidationError"
| "str_field (JBool b) = Inl ValidationError"
| "str_field (JInt n) = Inl ValidationError"
| "str_field (JFloat q) = Inl ValidationError"
| "str_field (JArr xs) = Inl ValidationError"
| "str_field (JObj kvs) = Inl ValidationError"

text \<open>\<^verbatim>\<open>"".join(xs)\<close>: every item must be a string.\<close>

fun join :: "json list \<Rightarrow> error + string" where
  "join [] = Inr []"
| "join (JStr s # xs) = rbind (join xs) (\<lambda>t. Inr (s @ t))"
| "join (JNull # xs) = Inl TypeError"
| "join (JBool b # xs) = Inl TypeError"
| "join (JInt n # xs) = Inl TypeError"
| "join (JFloat q # xs) = Inl TypeError"
| "join (JArr ys # xs) = Inl TypeError"
| "join (JObj kvs # xs) = Inl TypeError"

text \<open>
  \<^verbatim>\<open>SimpleChat.from_raw_data\<close>: the keyword arguments are evaluated left to right,
  then the model validates them.
\<close>

definition from_raw_data ::
  "(string \<Rightarrow> datetime option) \<Rightarrow> json \<Rightarrow> json \<Rightarrow> error + SimpleChat" where
  "from_raw_data fromiso raw_data start_time =
     rbind (getpath raw_data [''node'', ''id'']) (\<lambda>a_id.
     rbind (getitem_str raw_data ''cursor'') (\<lambda>a_cursor.
     rbind (getpath raw_data [''node'', ''commenter'', ''login'']) (\<lambda>a_login.
     rbind (getpath raw_data [''node'', ''commenter'', ''displayName'']) (\<lambda>a_displayName.
     rbind (getpath raw_data [''node'', ''commenter'', ''id'']) (\<lambda>a_user_id.
     rbind (getpath raw_data [''node'', ''message'', ''fragments'']) (\<lambda>fragments.
     rbind (py_iter fragments) (\<lambda>fragment_list.
     rbind (comprehension (\<lambda>fragment. getitem_str fragment ''text'') fragment_list) (\<lambda>texts.
     rbind (join texts) (\<lambda>a_text.
     rbind (getpath raw_data [''node'', ''createdAt'']) (\<lambda>created_at.
     rbind (calculate_time_difference fromiso start_time created_at) (\<lambda>a_offset.
     rbind (str_field a_id) (\<lambda>v_id.
     rbind (str_field a_cursor) (\<lambda>v_cursor.
     rbind (str_field a_login) (\<lambda>v_login.
     rbind (str_field a_displayName) (\<lambda>v_displayName.
     rbind (str_field a_user_id) (\<lambda>v_user_id.
       Inr \<lparr>chat_id = v_id, cursor = v_cursor, login = v_login,
            displayName = v_displayName, user_id = v_user_id,
            chat_text = a_text, offset = a_offset\<rparr>))))))))))))))))"

text \<open>
  \<^verbatim>\<open>ExportChat\<close>, with its fields \<^verbatim>\<open>displayName\<close>, \<^verbatim>\<open>text\<close> and \<^verbatim>\<open>offset\<close>
  prefixed by \<open>x_\<close> to keep them apart from those of \<open>SimpleChat\<close>.
\<close>

record ExportChat =
  x_displayName :: string
  x_text :: string
  x_offset :: rat

definition from_simple_chat :: "SimpleChat \<Rightarrow> int \<Rightarrow> ExportChat" where
  "from_simple_chat raw_data start_seconds =
     \<lparr>x_displayName = displayName raw_data, x_text = chat_text raw_data,
      x_offset = offset raw_data - of_int start_seconds\<rparr>"

section \<open>The network\<close>

text \<open>
  The four request builders. The body of a request is determined by the builder and its
  arguments, so a request is the builder applied to them. \<open>channel_login\<close> is whatever
  value the first lookup returned.
\<close>

datatype request =
    VideoCommentByCursorReq int string
  | VideoCommentByOffsetReq int int
  | ChannelVideoCoreReq int
  | VideoMetadataReq json int

text \<open>
  \<^verbatim>\<open>(await session.post(endpoint, json=req)).json()\<close> is a parameter \<open>post\<close> of the
  model: a transition of the outside world \<open>'w\<close> that returns the parsed response or
  raises. The same request can be answered differently at different times.
\<close>

type_synonym 'w session = "request \<Rightarrow> 'w \<Rightarrow> (error + json) \<times> 'w"

text \<open>
  The dict returned by a page fetch: \<^verbatim>\<open>{"next": ..., "chats": ..., "part_time": ...}\<close>
  (the key \<^verbatim>\<open>next\<close> is the field \<open>next_page\<close>).
\<close>

record page =
  next_page :: json
  chats :: "SimpleChat list"
  part_time :: json

definition comments_of :: "json \<Rightarrow> error + json" where
  "comments_of resp =
     rbind (getitem_int resp 0) (\<lambda>r. getpath r [''data'', ''video'', ''comments''])"

text \<open>The condition of the filter: \<^verbatim>\<open>i["node"]["commenter"]\<close> as a truth value.\<close>

definition has_commenter :: "json \<Rightarrow> error + bool" where
  "has_commenter i = rbind (getpath i [''node'', ''commenter'']) (\<lambda>c. Inr (truthy c))"

text \<open>
  Lines 137 to 142 (and 148 to 153): what both page fetchers do with a response.
\<close>

definition read_page :: "(string \<Rightarrow> datetime option) \<Rightarrow> json \<Rightarrow> json \<Rightarrow> error + page" where
  "read_page fromiso resp start_time =
     rbind (comments_of resp) (\<lambda>comments.
     rbind (getitem_str comments ''edges'') (\<lambda>edges.
     rbind (py_iter edges) (\<lambda>edge_list.
     rbind (comprehension_if has_commenter edge_list) (\<lambda>kept.
     rbind (getpath comments [''pageInfo'', ''hasNextPage'']) (\<lambda>a_next_page.
     rbind (getitem_int edges (- 1)) (\<lambda>last_edge.
     rbind (getpath last_edge [''node'', ''contentOffsetSeconds'']) (\<lambda>a_part_time.
     rbind (comprehension (\<lambda>raw_data. from_raw_data fromiso raw_data start_time) kept) (\<lambda>cs.
       Inr \<lparr>next_page = a_next_page, chats = cs, part_time = a_part_time\<rparr>))))))))"

text \<open>One attempt of each fetcher: the function under the decorator.\<close>

definition get_chat_by_offset_attempt ::
  "'w session \<Rightarrow> (string \<Rightarrow> datetime option) \<Rightarrow> int \<Rightarrow> int \<Rightarrow> json \<Rightarrow> 'w \<Rightarrow> (error + page) \<times> 'w" where
  "get_chat_by_offset_attempt post fromiso video_id a_offset start_time w =
     (case post (VideoCommentByOffsetReq video_id a_offset) w of
        (Inl e, w') \<Rightarrow> (Inl e, w')
      | (Inr resp, w') \<Rightarrow> (read_page fromiso resp start_time, w'))"

definition get_chat_by_cursor_attempt ::
  "'w session \<Rightarrow> (string \<Rightarrow> datetime option) \<Rightarrow> int \<Rightarrow> string \<Rightarrow> json \<Rightarrow> 'w \<Rightarrow> (error + page) \<times> 'w" where
  "get_chat_by_cursor_attempt post fromiso video_id a_cursor start_time w =
     (case post (VideoCommentByCursorReq video_id a_cursor) w of
        (Inl e, w') \<Rightarrow> (Inl e, w')
      | (Inr resp, w') \<Rightarrow> (read_page fromiso resp start_time, w'))"

text \<open>
  \<^verbatim>\<open>@retry(stop=stop_after_attempt(n), retry=retry_if_exception_type(TimeoutException))\<close>
  of the tenacity library: the attempts are numbered from 1; an attempt that raises a
  timeout is repeated unless its number has reached \<open>n\<close>, in which case RetryError is
  raised; any other outcome of an attempt is the outcome of the call.
\<close>

function retry :: "nat \<Rightarrow> nat \<Rightarrow> ('w \<Rightarrow> (error + 'a) \<times> 'w) \<Rightarrow> 'w \<Rightarrow> (error + 'a) \<times> 'w" where
  "retry stop_after_attempt attempt_number f w =
     (case f w of
        (Inr x, w') \<Rightarrow> (Inr x, w')
      | (Inl e, w') \<Rightarrow>
          if e = TimeoutException then
            if attempt_number \<ge> stop_after_attempt then (Inl RetryError, w')
            else retry stop_after_attempt (Suc attempt_number) f w'
          else (Inl e, w'))"
  by pat_completeness auto
termination
  by (relation "measure (\<lambda>(n, k, f, w). n - k)") auto

declare retry.simps [simp del]

definition get_chat_by_offset ::
  "'w session \<Rightarrow> (string \<Rightarrow> datetime option) \<Rightarrow> int \<Rightarrow> int \<Rightarrow> json \<Rightarrow> 'w \<Rightarrow> (error + page) \<times> 'w" where
  "get_chat_by_offset post fromiso video_id a_offset start_time =
     retry 5 1 (get_chat_by_offset_attempt post fromiso video_id a_offset start_time)"

definition get_chat_by_cursor ::
  "'w session \<Rightarrow> (string \<Rightarrow> datetime option) \<Rightarrow> int \<Rightarrow> string \<Rightarrow> json \<Rightarrow> 'w \<Rightarrow> (error + page) \<times> 'w" where
  "get_chat_by_cursor post fromiso video_id a_cursor start_time =
     retry 5 1 (get_chat_by_cursor_attempt post fromiso video_id a_cursor start_time)"

text \<open>
  \<^verbatim>\<open>get_video_start_time\<close> and \<^verbatim>\<open>get_video_length\<close> make the same two requests and
  differ in the field they return.
\<close>

definition video_metadata :: "'w session \<Rightarrow> int \<Rightarrow> string \<Rightarrow> 'w \<Rightarrow> (error + json) \<times> 'w" where
  "video_metadata post video_id field w =
     (case post (ChannelVideoCoreReq video_id) w of
        (Inl e, w1) \<Rightarrow> (Inl e, w1)
      | (Inr channel_resp, w1) \<Rightarrow>
          (case rbind (getitem_int channel_resp 0)
                  (\<lambda>r. getpath r [''data'', ''video'', ''owner'', ''login'']) of
             Inl e \<Rightarrow> (Inl e, w1)
           | Inr channel_login \<Rightarrow>
               (case post (VideoMetadataReq channel_login video_id) w1 of
                  (Inl e, w2) \<Rightarrow> (Inl e, w2)
                | (Inr metadata, w2) \<Rightarrow>
                    (rbind (getitem_int metadata 0)
                       (\<lambda>r. getpath r [''data'', ''video'', field]), w2))))"

definition get_video_start_time :: "'w session \<Rightarrow> int \<Rightarrow> 'w \<Rightarrow> (error + json) \<times> 'w" where
  "get_video_start_time post video_id = video_metadata post video_id ''createdAt''"

definition get_video_length :: "'w session \<Rightarrow> int \<Rightarrow> 'w \<Rightarrow> (error + json) \<times> 'w" where
  "get_video_length post video_id = video_metadata post video_id ''lengthSeconds''"

section \<open>The retrieval loops\<close>

text \<open>
  Lines 201 to 204 (and 180 to 183): \<^verbatim>\<open>if not cursor\<close> holds for \<^verbatim>\<open>None\<close> and for
  the empty string.
\<close>

definition fetch ::
  "'w session \<Rightarrow> (string \<Rightarrow> datetime option) \<Rightarrow> int \<Rightarrow> int \<Rightarrow> json \<Rightarrow> string option \<Rightarrow> 'w \<Rightarrow> (error + page) \<times> 'w" where
  "fetch post fromiso video_id start_seconds start_time a_cursor w =
     (case a_cursor of
        None \<Rightarrow> get_chat_by_offset post fromiso video_id start_seconds start_time w
      | Some c \<Rightarrow>
          if c = [] then get_chat_by_offset post fromiso video_id start_seconds start_time w
          else get_chat_by_cursor post fromiso video_id c start_time w)"

text \<open>
  The outcome of one pass through a \<^verbatim>\<open>while\<close> body: go round again with a new
  state, or leave the loop (by \<^verbatim>\<open>break\<close>, by the loop condition, or by an exception).
\<close>

datatype ('s, 'r) pass = Again 's | Leave 'r

text \<open>
  Lines 205 to 210, the \<^verbatim>\<open>for\<close> loop over a page: returns the list \<^verbatim>\<open>result\<close> and
  the flag \<^verbatim>\<open>stop\<close> (which is \<^verbatim>\<open>True\<close> while the retrieval is to go on).
\<close>

fun consume :: "int \<Rightarrow> SimpleChat list \<Rightarrow> SimpleChat list \<Rightarrow> SimpleChat list \<times> bool" where
  "consume stop_seconds [] result = (result, True)"
| "consume stop_seconds (chat # rest) result =
     (if offset chat > of_int stop_seconds then (result, False)
      else consume stop_seconds rest (result @ [chat]))"

text \<open>Lines 201 to 214: one pass of the loop of \<^verbatim>\<open>get_part_chat\<close>.\<close>

definition part_body ::
  "'w session \<Rightarrow> (string \<Rightarrow> datetime option) \<Rightarrow> int \<Rightarrow> int \<Rightarrow> int \<Rightarrow> json \<Rightarrow>
   string option \<times> SimpleChat list \<times> 'w \<Rightarrow>
   (string option \<times> SimpleChat list \<times> 'w, (error + SimpleChat list) \<times> 'w) pass" where
  "part_body post fromiso video_id start_seconds stop_seconds start_time st =
     (case st of (a_cursor, result, w) \<Rightarrow>
        (case fetch post fromiso video_id start_seconds start_time a_cursor w of
           (Inl e, w') \<Rightarrow> Leave (Inl e, w')
         | (Inr resp, w') \<Rightarrow>
             (case consume stop_seconds (chats resp) result of
                (result', stop) \<Rightarrow>
                  if truthy (next_page resp) then
                    (case py_index (chats resp) (- 1) of
                       Inl e \<Rightarrow> Leave (Inl e, w')
                     | Inr last_chat \<Rightarrow>
                         if stop then Again (Some (cursor last_chat), result', w')
                         else Leave (Inr result', w'))
                  else Leave (Inr result', w'))))"

partial_function (option) part_loop ::
  "'w session \<Rightarrow> (string \<Rightarrow> datetime option) \<Rightarrow> int \<Rightarrow> int \<Rightarrow> int \<Rightarrow> json \<Rightarrow>
   string option \<times> SimpleChat list \<times> 'w \<Rightarrow> ((error + SimpleChat list) \<times> 'w) option" where
  "part_loop post fromiso video_id start_seconds stop_seconds start_time st =
     (case part_body post fromiso video_id start_seconds stop_seconds start_time st of
        Leave r \<Rightarrow> Some r
      | Again st' \<Rightarrow> part_loop post fromiso video_id start_seconds stop_seconds start_time st')"

text \<open>\<^verbatim>\<open>get_part_chat\<close>; \<open>None\<close> is a loop that runs forever.\<close>

definition get_part_chat ::
  "'w session \<Rightarrow> (string \<Rightarrow> datetime option) \<Rightarrow> int \<Rightarrow> int \<Rightarrow> int \<Rightarrow> 'w \<Rightarrow>
   ((error + SimpleChat list) \<times> 'w) option" where
  "get_part_chat post fromiso video_id start_seconds stop_seconds w =
     (case get_video_start_time post video_id w of
        (Inl e, w') \<Rightarrow> Some (Inl e, w')
      | (Inr start_time, w') \<Rightarrow>
          part_loop post fromiso video_id start_seconds stop_seconds start_time (None, [], w'))"

text \<open>
  \<^verbatim>\<open>resp["part_time"] - pbar.n\<close> raises TypeError unless \<^verbatim>\<open>part_time\<close> is a number
  (a bool is one). The progress bar itself is not modelled.
\<close>

fun is_number :: "json \<Rightarrow> bool" where
  "is_number (JInt n) = True"
| "is_number (JFloat q) = True"
| "is_number (JBool b) = True"
| "is_number JNull = False"
| "is_number (JStr s) = False"
| "is_number (JArr xs) = False"
| "is_number (JObj kvs) = False"

text \<open>Lines 179 to 189: one pass of the loop of \<^verbatim>\<open>get_all_chat\<close>.\<close>

definition all_body ::
  "'w session \<Rightarrow> (string \<Rightarrow> datetime option) \<Rightarrow> int \<Rightarrow> json \<Rightarrow>
   string option \<times> SimpleChat list \<times> 'w \<Rightarrow>
   (string option \<times> SimpleChat list \<times> 'w, (error + SimpleChat list) \<times> 'w) pass" where
  "all_body post fromiso video_id start_time st =
     (case st of (a_cursor, result, w) \<Rightarrow>
        (case fetch post fromiso video_id 0 start_time a_cursor w of
           (Inl e, w') \<Rightarrow> Leave (Inl e, w')
         | (Inr resp, w') \<Rightarrow>
             if \<not> is_number (part_time resp) then Leave (Inl TypeError, w')
             else if truthy (next_page resp) then
               (case py_index (chats resp) (- 1) of
                  Inl e \<Rightarrow> Leave (Inl e, w')
                | Inr last_chat \<Rightarrow> Again (Some (cursor last_chat), result @ chats resp, w'))
             else Leave (Inr (result @ chats resp), w')))"

partial_function (option) all_loop ::
  "'w session \<Rightarrow> (string \<Rightarrow> datetime option) \<Rightarrow> int \<Rightarrow> json \<Rightarrow>
   string option \<times> SimpleChat list \<times> 'w \<Rightarrow> ((error + SimpleChat list) \<times> 'w) option" where
  "all_loop post fromiso video_id start_time st =
     (case all_body post fromiso video_id start_time st of
        Leave r \<Rightarrow> Some r
      | Again st' \<Rightarrow> all_loop post fromiso video_id start_time st')"

definition get_all_chat ::
  "'w session \<Rightarrow> (string \<Rightarrow> datetime option) \<Rightarrow> int \<Rightarrow> 'w \<Rightarrow>
   ((error + SimpleChat list) \<times> 'w) option" where
  "get_all_chat post fromiso video_id w =
     (case get_video_start_time post video_id w of
        (Inl e, w1) \<Rightarrow> Some (Inl e, w1)
      | (Inr start_time, w1) \<Rightarrow>
          (case get_video_length post video_id w1 of
             (Inl e, w2) \<Rightarrow> Some (Inl e, w2)
           | (Inr video_length, w2) \<Rightarrow>
               all_loop post fromiso video_id start_time (None, [], w2)))"

section \<open>Keyword search and export\<close>

text \<open>\<^verbatim>\<open>keyword in s\<close> on strings: \<open>keyword\<close> occurs in \<open>s\<close> as a contiguous run.\<close>

fun startswith :: "string \<Rightarrow> string \<Rightarrow> bool" where
  "startswith s [] = True"
| "startswith [] (k # ks) = False"
| "startswith (c # s) (k # ks) = (c = k \<and> startswith s ks)"

fun py_in :: "string \<Rightarrow> string \<Rightarrow> bool" where
  "py_in keyword [] = (keyword = [])"
| "py_in keyword (c # s) = (startswith (c # s) keyword \<or> py_in keyword s)"

text \<open>
  \<^verbatim>\<open>round\<close> on a number: to the nearest integer, a tie to the even one.
\<close>

definition py_round :: "rat \<Rightarrow> int" where
  "py_round x =
     (let f = \<lfloor>x\<rfloor>; r = x - of_int f
      in if r < 1 / 2 then f else if 1 / 2 < r then f + 1 else if even f then f else f + 1)"

text \<open>
  \<^verbatim>\<open>timedelta(seconds=x)\<close> of the standard library: the whole seconds and the rounded
  microseconds of the fraction are added up, and the constructor raises OverflowError
  when the number of days of the sum is beyond 999999999 in magnitude. The value
  returned here is the duration in microseconds.
\<close>

definition timedelta :: "rat \<Rightarrow> error + int" where
  "timedelta seconds =
     (let whole = (if 0 \<le> seconds then \<lfloor>seconds\<rfloor> else \<lceil>seconds\<rceil>);
          secondsfrac = seconds - of_int whole;
          microseconds = whole * 1000000 + py_round (secondsfrac * 1000000);
          days = microseconds div 86400000000
      in if 999999999 < \<bar>days\<bar> then Inl OverflowError else Inr microseconds)"

text \<open>
  \<^verbatim>\<open>search_keywords\<close>: the inner loop over the keywords, the outer loop over the chats,
  both appending to \<^verbatim>\<open>results\<close>. Before a record is appended, line 223 builds
  \<^verbatim>\<open>timedelta(seconds=chat.offset - start_seconds)\<close> for the log line, which can raise;
  the text that is logged is not modelled.
\<close>

fun keyword_loop ::
  "int \<Rightarrow> SimpleChat \<Rightarrow> string list \<Rightarrow> SimpleChat list \<Rightarrow> error + SimpleChat list" where
  "keyword_loop start_seconds chat [] results = Inr results"
| "keyword_loop start_seconds chat (keyword # rest) results =
     (if py_in keyword (displayName chat) \<or> py_in keyword (chat_text chat)
      then rbind (timedelta (offset chat - of_int start_seconds))
             (\<lambda>logged. keyword_loop start_seconds chat rest (results @ [chat]))
      else keyword_loop start_seconds chat rest results)"

fun chat_loop ::
  "int \<Rightarrow> SimpleChat list \<Rightarrow> string list \<Rightarrow> SimpleChat list \<Rightarrow> error + SimpleChat list" where
  "chat_loop start_seconds [] keywords results = Inr results"
| "chat_loop start_seconds (chat # rest) keywords results =
     rbind (keyword_loop start_seconds chat keywords results)
       (\<lambda>results'. chat_loop start_seconds rest keywords results')"

definition search_keywords ::
  "SimpleChat list \<Rightarrow> string list \<Rightarrow> int \<Rightarrow> error + SimpleChat list" where
  "search_keywords a_chats keywords start_seconds = chat_loop start_seconds a_chats keywords []"

text \<open>
  \<^verbatim>\<open>export\<close> puts the dumped records into a set and iterates over the set. The order in
  which a set yields its elements is not fixed by the language (it follows the hashes of
  the elements, and the hash of a string changes from one interpreter process to the
  next), so the iteration is a parameter \<open>set_iter\<close> of the model. Every iteration yields
  each element of the set once, which is what \<open>set_iteration\<close> says.
\<close>

definition set_iteration :: "('a list \<Rightarrow> 'a list) \<Rightarrow> bool" where
  "set_iteration set_iter \<longleftrightarrow> (\<forall>xs. distinct (set_iter xs) \<and> set (set_iter xs) = set xs)"

text \<open>\<^verbatim>\<open>model_dump\<close>: the dict of an \<^verbatim>\<open>ExportChat\<close>.\<close>

definition model_dump :: "ExportChat \<Rightarrow> json" where
  "model_dump x =
     JObj [(''displayName'', JStr (x_displayName x)), (''text'', JStr (x_text x)),
           (''offset'', JFloat (x_offset x))]"

text \<open>
  Lines 230 to 232. The source dumps each record to a dict before it builds the set;
  since \<open>model_dump\<close> is injective, the records are compared and sorted here and dumped
  last. \<^verbatim>\<open>list.sort\<close> is stable, as \<open>sort_key\<close> is.
\<close>

definition final_chats :: "(ExportChat list \<Rightarrow> ExportChat list) \<Rightarrow> SimpleChat list \<Rightarrow> int \<Rightarrow> ExportChat list" where
  "final_chats set_iter a_chats start_seconds =
     sort_key x_offset
       (set_iter (map (\<lambda>chat. from_simple_chat chat start_seconds) a_chats))"

text \<open>
  \<^verbatim>\<open>export\<close> writes the file \<^verbatim>\<open>export_<6 hex digits>.json\<close>. The files are a map from
  names to the value handed to \<^verbatim>\<open>json.dump\<close>; \<open>uuid_hex\<close> is \<^verbatim>\<open>uuid.uuid4().hex\<close>.
\<close>

type_synonym files = "string \<rightharpoonup> json"

definition export ::
  "(ExportChat list \<Rightarrow> ExportChat list) \<Rightarrow> string \<Rightarrow> SimpleChat list \<Rightarrow> int \<Rightarrow> files \<Rightarrow> files" where
  "export set_iter uuid_hex a_chats start_seconds fs =
     fs(''export_'' @ take 6 uuid_hex @ ''.json'' \<mapsto>
          JArr (map model_dump (final_chats set_iter a_chats start_seconds)))"

text \<open>
  \<^verbatim>\<open>get_sec\<close>: \<^verbatim>\<open>time_str.split(':')\<close> must give three parts, each accepted by
  \<^verbatim>\<open>int\<close>, which is a parameter \<open>py_int\<close> of the model.
\<close>

fun split_colon :: "string \<Rightarrow> string list" where
  "split_colon [] = [[]]"
| "split_colon (c # s) =
     (if c = CHR '':'' then [] # split_colon s
      else (case split_colon s of [] \<Rightarrow> [[c]] | p # ps \<Rightarrow> (c # p) # ps))"

definition int_of :: "(string \<Rightarrow> int option) \<Rightarrow> string \<Rightarrow> error + int" where
  "int_of py_int s = (case py_int s of None \<Rightarrow> Inl ValueError | Some n \<Rightarrow> Inr n)"

definition get_sec :: "(string \<Rightarrow> int option) \<Rightarrow> string \<Rightarrow> error + int" where
  "get_sec py_int time_str =
     (case split_colon time_str of
        [h, m, s] \<Rightarrow>
          rbind (int_of py_int h) (\<lambda>hh.
          rbind (int_of py_int m) (\<lambda>mm.
          rbind (int_of py_int s) (\<lambda>ss. Inr (hh * 3600 + mm * 60 + ss))))
      | _ \<Rightarrow> Inl ValueError)"

text \<open>
  \<^verbatim>\<open>main\<close>: the state is the outside world and the files; \<open>None\<close> is a retrieval
  that runs forever. \<open>keywords\<close> is the sequence that \<^verbatim>\<open>search_keywords\<close> iterates
  over (the command line hands over one string, whose items are its characters).
\<close>

definition main ::
  "'w session \<Rightarrow> (string \<Rightarrow> datetime option) \<Rightarrow> (string \<Rightarrow> int option) \<Rightarrow>
   (ExportChat list \<Rightarrow> ExportChat list) \<Rightarrow> string \<Rightarrow>
   int \<Rightarrow> string \<Rightarrow> string \<Rightarrow> string list \<Rightarrow> 'w \<times> files \<Rightarrow> ((error + unit) \<times> 'w \<times> files) option" where
  "main post fromiso py_int set_iter uuid_hex video_id start_time end_time keywords st =
     (case st of (w, fs) \<Rightarrow>
        (case get_sec py_int start_time of
           Inl e \<Rightarrow> Some (Inl e, w, fs)
         | Inr start_seconds \<Rightarrow>
             (case get_sec py_int end_time of
                Inl e \<Rightarrow> Some (Inl e, w, fs)
              | Inr stop_seconds \<Rightarrow>
                  (case get_part_chat post fromiso video_id start_seconds stop_seconds w of
                     None \<Rightarrow> None
                   | Some (Inl e, w') \<Rightarrow> Some (Inl e, w', fs)
                   | Some (Inr a_chats, w') \<Rightarrow>
                       (case search_keywords a_chats keywords start_seconds of
                          Inl e \<Rightarrow> Some (Inl e, w', fs)
                        | Inr matched_chats \<Rightarrow>
                            if matched_chats \<noteq> []
                            then Some (Inr (), w',
                                       export set_iter uuid_hex matched_chats start_seconds fs)
                            else Some (Inr (), w', fs))))))"

section \<open>Notions used in the statements\<close>

text \<open>
  The raw edge list of a response (line 137), the commenter of a raw entry and the
  \<^verbatim>\<open>hasNextPage\<close> flag of a response (line 139).
\<close>

definition edges_of :: "json \<Rightarrow> error + json" where
  "edges_of resp = rbind (comments_of resp) (\<lambda>comments. getitem_str comments ''edges'')"

definition commenter_of :: "json \<Rightarrow> error + json" where
  "commenter_of i = getpath i [''node'', ''commenter'']"

definition has_next_page_of :: "json \<Rightarrow> error + json" where
  "has_next_page_of resp =
     rbind (comments_of resp) (\<lambda>comments. getpath comments [''pageInfo'', ''hasNextPage''])"

text \<open>The test of the filter of line 138 on a raw entry: its commenter is truthy.\<close>

definition truthy_commenter :: "json \<Rightarrow> bool" where
  "truthy_commenter i = (case commenter_of i of Inr c \<Rightarrow> truthy c | Inl e \<Rightarrow> False)"

text \<open>The request that \<open>fetch\<close> makes for a cursor (lines 201 to 204).\<close>

definition request_for :: "int \<Rightarrow> int \<Rightarrow> string option \<Rightarrow> request" where
  "request_for video_id start_seconds a_cursor =
     (case a_cursor of
        None \<Rightarrow> VideoCommentByOffsetReq video_id start_seconds
      | Some c \<Rightarrow>
          if c = [] then VideoCommentByOffsetReq video_id start_seconds
          else VideoCommentByCursorReq video_id c)"

text \<open>The outside world after \<open>n\<close> attempts of \<open>f\<close> in a row.\<close>

definition after_attempts :: "('w \<Rightarrow> 'r \<times> 'w) \<Rightarrow> nat \<Rightarrow> 'w \<Rightarrow> 'w" where
  "after_attempts f n w = ((\<lambda>v. snd (f v)) ^^ n) w"

text \<open>
  The loop after at most \<open>n\<close> passes: \<open>Again st\<close> if it is still running, in state
  \<open>st\<close>; \<open>Leave r\<close> if it has ended with \<open>r\<close>.
\<close>

fun passes :: "('s \<Rightarrow> ('s, 'r) pass) \<Rightarrow> nat \<Rightarrow> 's \<Rightarrow> ('s, 'r) pass" where
  "passes body 0 st = Again st"
| "passes body (Suc n) st =
     (case body st of Leave r \<Rightarrow> Leave r | Again st' \<Rightarrow> passes body n st')"

text \<open>
  A page that reports no further pages, or that holds a record beyond the end of the
  window.
\<close>

definition page_closes :: "int \<Rightarrow> page \<Rightarrow> bool" where
  "page_closes stop_seconds p \<longleftrightarrow>
     \<not> truthy (next_page p) \<or> (\<exists>c\<in>set (chats p). offset c > of_int stop_seconds)"

text \<open>
  What a feed does at pass \<open>n + 1\<close> of a loop started in \<open>st0\<close>: if the loop is still
  running after \<open>n\<close> passes and its next fetch delivers a page, the page closes the
  window (for either loop), or reports no further pages.
\<close>

definition part_page_closes ::
  "'w session \<Rightarrow> (string \<Rightarrow> datetime option) \<Rightarrow> int \<Rightarrow> int \<Rightarrow> int \<Rightarrow> json \<Rightarrow>
   string option \<times> SimpleChat list \<times> 'w \<Rightarrow> nat \<Rightarrow> bool" where
  "part_page_closes post fromiso video_id start_seconds stop_seconds start_time st0 n \<longleftrightarrow>
     (\<forall>a_cursor result w p w'.
        passes (part_body post fromiso video_id start_seconds stop_seconds start_time) n st0 =
          Again (a_cursor, result, w) \<and>
        fetch post fromiso video_id start_seconds start_time a_cursor w = (Inr p, w') \<longrightarrow>
        page_closes stop_seconds p)"

definition all_page_closes ::
  "'w session \<Rightarrow> (string \<Rightarrow> datetime option) \<Rightarrow> int \<Rightarrow> int \<Rightarrow> json \<Rightarrow>
   string option \<times> SimpleChat list \<times> 'w \<Rightarrow> nat \<Rightarrow> bool" where
  "all_page_closes post fromiso video_id stop_seconds start_time st0 n \<longleftrightarrow>
     (\<forall>a_cursor result w p w'.
        passes (all_body post fromiso video_id start_time) n st0 = Again (a_cursor, result, w) \<and>
        fetch post fromiso video_id 0 start_time a_cursor w = (Inr p, w') \<longrightarrow>
        page_closes stop_seconds p)"

definition all_page_ends ::
  "'w session \<Rightarrow> (string \<Rightarrow> datetime option) \<Rightarrow> int \<Rightarrow> json \<Rightarrow>
   string option \<times> SimpleChat list \<times> 'w \<Rightarrow> nat \<Rightarrow> bool" where
  "all_page_ends post fromiso video_id start_time st0 n \<longleftrightarrow>
     (\<forall>a_cursor result w p w'.
        passes (all_body post fromiso video_id start_time) n st0 = Again (a_cursor, result, w) \<and>
        fetch post fromiso video_id 0 start_time a_cursor w = (Inr p, w') \<longrightarrow>
        \<not> truthy (next_page p))"

section \<open>Sample responses\<close>

text \<open>
  Responses of the shape the server sends, a clock for their timestamps, and two
  sessions: one answers the requests from a script, in order, whatever is asked, and
  counts the requests; the other answers every page request with the same page.
\<close>

definition sample_commenter :: json where
  "sample_commenter =
     JObj [(''id'', JStr ''7''), (''login'', JStr ''ann''), (''displayName'', JStr ''Ann'')]"

definition sample_edge :: "string \<Rightarrow> json \<Rightarrow> string \<Rightarrow> string \<Rightarrow> int \<Rightarrow> json" where
  "sample_edge a_cursor commenter a_text created_at content_offset =
     JObj [(''cursor'', JStr a_cursor),
           (''node'', JObj [(''id'', JStr ''n''), (''commenter'', commenter),
              (''message'', JObj [(''fragments'', JArr [JObj [(''text'', JStr a_text)]])]),
              (''createdAt'', JStr created_at),
              (''contentOffsetSeconds'', JInt content_offset)])]"

definition sample_comments :: "json list \<Rightarrow> bool \<Rightarrow> json" where
  "sample_comments edges has_next =
     JArr [JObj [(''data'', JObj [(''video'', JObj [(''comments'',
       JObj [(''edges'', JArr edges),
             (''pageInfo'', JObj [(''hasNextPage'', JBool has_next)])])])])]]"

definition sample_owner :: json where
  "sample_owner =
     JArr [JObj [(''data'', JObj [(''video'', JObj [(''owner'',
       JObj [(''login'', JStr ''chan'')])])])]]"

definition sample_metadata :: json where
  "sample_metadata =
     JArr [JObj [(''data'', JObj [(''video'',
       JObj [(''createdAt'', JStr ''00:00''), (''lengthSeconds'', JInt 3600)])])]]"

definition sample_clock :: "string \<Rightarrow> datetime option" where
  "sample_clock =
     map_of [(''00:00'', Naive 0), (''00:05'', Naive 5), (''00:12'', Naive 12),
             (''00:15'', Naive 15), (''00:30'', Naive 30)]"

definition scripted_post :: "(error + json) list \<Rightarrow> nat session" where
  "scripted_post script req w =
     (if w < length script then script ! w else Inl NetworkError, Suc w)"

definition endless_post :: "json \<Rightarrow> nat session" where
  "endless_post a_page req w =
     (case req of
        ChannelVideoCoreReq v \<Rightarrow> (Inr sample_owner, Suc w)
      | VideoMetadataReq l v \<Rightarrow> (Inr sample_metadata, Suc w)
      | VideoCommentByOffsetReq v a \<Rightarrow> (Inr a_page, Suc w)
      | VideoCommentByCursorReq v c \<Rightarrow> (Inr a_page, Suc w))"

definition sample_chat :: "string \<Rightarrow> string \<Rightarrow> rat \<Rightarrow> SimpleChat" where
  "sample_chat a_cursor a_text a_offset =
     \<lparr>chat_id = ''n'', cursor = a_cursor, login = ''ann'', displayName = ''Ann'',
      user_id = ''7'', chat_text = a_text, offset = a_offset\<rparr>"

text \<open>
  Sample pages: a record before the window; records inside and beyond the window; entries
  with a null commenter among the others; an entry whose commenter is the empty object;
  only an entry with a null commenter; no entry at all; a record beyond the window on a
  page that reports more pages.
\<close>

definition early_page :: json where
  "early_page = sample_comments [sample_edge ''c1'' sample_commenter ''hi'' ''00:05'' 5] False"

definition window_page :: json where
  "window_page =
     sample_comments
       [sample_edge ''c1'' sample_commenter ''hello'' ''00:12'' 12,
        sample_edge ''c2'' sample_commenter ''bye'' ''00:15'' 15,
        sample_edge ''c3'' sample_commenter ''late'' ''00:30'' 30] True"

definition mixed_page :: json where
  "mixed_page =
     sample_comments
       [sample_edge ''c1'' sample_commenter ''hi'' ''00:05'' 5,
        sample_edge ''c2'' JNull ''x'' ''00:12'' 12,
        sample_edge ''c3'' sample_commenter ''yo'' ''00:15'' 15,
        sample_edge ''c4'' JNull ''gone'' ''00:30'' 30] False"

definition falsy_page :: json where
  "falsy_page =
     sample_comments
       [sample_edge ''c1'' sample_commenter ''hi'' ''00:05'' 5,
        sample_edge ''c2'' (JObj []) ''x'' ''00:12'' 12] False"

definition null_page :: json where
  "null_page = sample_comments [sample_edge ''c1'' JNull ''x'' ''00:05'' 5] True"

definition empty_page :: json where
  "empty_page = sample_comments [] True"

definition far_page :: json where
  "far_page = sample_comments [sample_edge ''c1'' sample_commenter ''late'' ''00:30'' 30] True"

text \<open>A stand-in for Python's \<^verbatim>\<open>int\<close> on the strings the samples use.\<close>

definition sample_int :: "string \<Rightarrow> int option" where
  "sample_int = map_of [(''00'', 0), (''10'', 10), (''20'', 20)]"

section \<open>Auxiliary facts\<close>

subsection \<open>Fallible steps\<close>

lemma rbind_Inr_iff: "rbind m f = Inr y \<longleftrightarrow> (\<exists>x. m = Inr x \<and> f x = Inr y)"
  by (cases m) auto

lemma rbind_Inl_iff: "rbind m f = Inl e \<longleftrightarrow> m = Inl e \<or> (\<exists>x. m = Inr x \<and> f x = Inl e)"
  by (cases m) auto

lemma py_index_last: "py_index xs (- 1) = (if xs = [] then Inl IndexError else Inr (last xs))"
  by (cases xs rule: rev_cases) (auto simp: py_index_def nth_append)

lemma py_index_errors: "py_index xs i = Inl e \<Longrightarrow> e = IndexError"
  by (auto simp: py_index_def split: if_splits)

lemma comprehension_if_Inr:
  "comprehension_if c xs = Inr ys \<Longrightarrow>
     ys = filter (\<lambda>x. c x = Inr True) xs \<and> (\<forall>x\<in>set xs. \<exists>b. c x = Inr b)"
  by (induction xs arbitrary: ys) (auto simp: rbind_Inr_iff)

lemma comprehension_Inr:
  "comprehension f xs = Inr ys \<Longrightarrow> map f xs = map Inr ys"
  by (induction xs arbitrary: ys) (auto simp: rbind_Inr_iff)

lemma comprehension_Inr_iff:
  "comprehension f xs = Inr ys \<longleftrightarrow> map f xs = map Inr ys"
  by (induction xs arbitrary: ys) (auto simp: rbind_Inr_iff)

lemma retry_Inr:
  "retry n k f w = (Inr x, w') \<Longrightarrow> \<exists>w0. f w0 = (Inr x, w')"
proof (induction n k f w rule: retry.induct)
  case (1 n k f w)
  show ?case
  proof (cases "f w")
    case (Pair r w1)
    show ?thesis
    proof (cases r)
      case (Inr y)
      with Pair "1.prems" show ?thesis by (auto simp: retry.simps [of n k f w])
    next
      case (Inl e)
      with Pair "1.prems" "1.IH" show ?thesis
        by (auto simp: retry.simps [of n k f w] split: if_splits)
    qed
  qed
qed

lemma has_commenter_str: "has_commenter (JStr s) = Inl TypeError"
  by (simp add: has_commenter_def)

lemma read_page_Inr:
  assumes "read_page fromiso resp st = Inr p"
  shows "\<exists>entries. edges_of resp = Inr (JArr entries) \<and> entries \<noteq> [] \<and>
           map Inr (chats p) =
             map (\<lambda>raw_data. from_raw_data fromiso raw_data st)
               (filter (\<lambda>i. has_commenter i = Inr True) entries) \<and>
           (\<forall>i\<in>set entries. \<exists>b. has_commenter i = Inr b) \<and>
           getpath (last entries) [''node'', ''contentOffsetSeconds''] = Inr (part_time p) \<and>
           has_next_page_of resp = Inr (next_page p)"
proof -
  from assms obtain comments edges edge_list kept np last_edge pt cs where
    c: "comments_of resp = Inr comments" and
    e: "getitem_str comments ''edges'' = Inr edges" and
    it: "py_iter edges = Inr edge_list" and
    k: "comprehension_if has_commenter edge_list = Inr kept" and
    n: "getpath comments [''pageInfo'', ''hasNextPage''] = Inr np" and
    l: "getitem_int edges (- 1) = Inr last_edge" and
    t: "getpath last_edge [''node'', ''contentOffsetSeconds''] = Inr pt" and
    f: "comprehension (\<lambda>raw_data. from_raw_data fromiso raw_data st) kept = Inr cs" and
    p: "p = \<lparr>next_page = np, chats = cs, part_time = pt\<rparr>"
    unfolding read_page_def rbind_Inr_iff by auto
  note kk = comprehension_if_Inr [OF k]
  have arr: "edges = JArr edge_list \<and> edge_list \<noteq> [] \<and> last_edge = last edge_list"
  proof (cases edges)
    case (JArr xs)
    with it l show ?thesis by (auto simp: py_index_last split: if_splits)
  next
    case (JStr s)
    with l have "s \<noteq> []" by (auto simp: py_index_last rbind_Inr_iff split: if_splits)
    then have "JStr [hd s] \<in> set edge_list"
      using it JStr by (cases s) auto
    with kk have "\<exists>b. has_commenter (JStr [hd s]) = Inr b" by blast
    then show ?thesis by (simp add: has_commenter_str)
  qed (use it l in auto)
  show ?thesis
    using arr c e n t p kk comprehension_Inr [OF f]
    by (intro exI [of _ edge_list]) (auto simp: edges_of_def has_next_page_of_def)
qed

subsection \<open>No step of a page fetch raises a timeout of its own\<close>

lemma getitem_str_no_timeout: "getitem_str j k \<noteq> Inl TimeoutException"
  by (cases j) (auto split: option.splits)

lemma getitem_int_no_timeout: "getitem_int j i \<noteq> Inl TimeoutException"
  by (cases j) (auto simp: rbind_Inl_iff dest: py_index_errors)

lemma getpath_no_timeout: "getpath j ks \<noteq> Inl TimeoutException"
  by (induction ks arbitrary: j) (auto simp: rbind_Inl_iff getitem_str_no_timeout)

lemma py_iter_no_timeout: "py_iter j \<noteq> Inl TimeoutException"
  by (cases j) auto

lemma comprehension_Inl: "comprehension f xs = Inl e \<Longrightarrow> \<exists>x\<in>set xs. f x = Inl e"
  by (induction xs) (auto simp: rbind_Inl_iff)

lemma comprehension_if_Inl: "comprehension_if c xs = Inl e \<Longrightarrow> \<exists>x\<in>set xs. c x = Inl e"
  by (induction xs) (auto simp: rbind_Inl_iff)

lemma fromisoformat_no_timeout: "fromisoformat fromiso j \<noteq> Inl TimeoutException"
  by (cases j) (auto split: option.splits)

lemma total_seconds_sub_no_timeout: "total_seconds_sub a b \<noteq> Inl TimeoutException"
  by (cases a; cases b) auto

lemma calculate_time_difference_no_timeout:
  "calculate_time_difference fromiso a b \<noteq> Inl TimeoutException"
  by (auto simp: calculate_time_difference_def rbind_Inl_iff fromisoformat_no_timeout
      total_seconds_sub_no_timeout)

lemma str_field_no_timeout: "str_field j \<noteq> Inl TimeoutException"
  by (cases j) auto

lemma join_no_timeout: "join xs \<noteq> Inl TimeoutException"
  by (induction xs rule: join.induct) (auto simp: rbind_Inl_iff)

lemma from_raw_data_no_timeout: "from_raw_data fromiso raw_data st \<noteq> Inl TimeoutException"
  unfolding from_raw_data_def
  by (auto simp: rbind_Inl_iff getpath_no_timeout getitem_str_no_timeout py_iter_no_timeout
      join_no_timeout calculate_time_difference_no_timeout str_field_no_timeout
      dest!: comprehension_Inl)

lemma has_commenter_no_timeout: "has_commenter i \<noteq> Inl TimeoutException"
  by (auto simp: has_commenter_def rbind_Inl_iff getitem_str_no_timeout)

lemma comments_of_no_timeout: "comments_of resp \<noteq> Inl TimeoutException"
  by (auto simp: comments_of_def rbind_Inl_iff getitem_str_no_timeout getitem_int_no_timeout)

lemma read_page_no_timeout: "read_page fromiso resp st \<noteq> Inl TimeoutException"
  unfolding read_page_def
  by (auto simp: rbind_Inl_iff getpath_no_timeout getitem_str_no_timeout py_iter_no_timeout
      getitem_int_no_timeout comments_of_no_timeout has_commenter_no_timeout
      from_raw_data_no_timeout
      dest!: comprehension_Inl comprehension_if_Inl)

lemma retry_other:
  "fst (f w) \<noteq> Inl TimeoutException \<Longrightarrow> retry n k f w = f w"
  by (cases "f w") (auto simp: retry.simps [of n k f w] split: sum.splits)

lemma retry_timeout_again:
  "fst (f w) = Inl TimeoutException \<Longrightarrow> k < n \<Longrightarrow> retry n k f w = retry n (Suc k) f (snd (f w))"
  by (cases "f w") (auto simp: retry.simps [of n k f w] split: sum.splits)

lemma retry_timeout_stop:
  "fst (f w) = Inl TimeoutException \<Longrightarrow> n \<le> k \<Longrightarrow> retry n k f w = (Inl RetryError, snd (f w))"
  by (cases "f w") (auto simp: retry.simps [of n k f w] split: sum.splits)

lemma after_attempts_Suc: "after_attempts f (Suc j) w = after_attempts f j (snd (f w))"
  by (simp add: after_attempts_def funpow_Suc_right del: funpow.simps)

lemma after_attempts_0: "after_attempts f 0 w = w"
  by (simp add: after_attempts_def)

lemma retry_after_timeouts:
  assumes "\<forall>i<j. fst (f (after_attempts f i w)) = Inl TimeoutException"
    and "fst (f (after_attempts f j w)) \<noteq> Inl TimeoutException"
    and "k + j \<le> n"
  shows "retry n k f w = f (after_attempts f j w)"
  using assms
proof (induction j arbitrary: k w)
  case 0
  then show ?case by (simp add: retry_other after_attempts_0)
next
  case (Suc j)
  from Suc.prems(1) have t: "fst (f w) = Inl TimeoutException"
    using after_attempts_0 [of f w] by (metis zero_less_Suc)
  have "\<forall>i<j. fst (f (after_attempts f i (snd (f w)))) = Inl TimeoutException"
    using Suc.prems(1) by (auto simp: after_attempts_Suc [symmetric])
  moreover have "fst (f (after_attempts f j (snd (f w)))) \<noteq> Inl TimeoutException"
    using Suc.prems(2) by (simp add: after_attempts_Suc)
  ultimately have "retry n (Suc k) f (snd (f w)) = f (after_attempts f j (snd (f w)))"
    using Suc.IH [of "snd (f w)" "Suc k"] Suc.prems(3) by simp
  then show ?case
    using t Suc.prems(3) by (simp add: retry_timeout_again after_attempts_Suc)
qed

lemma retry_all_timeouts:
  assumes "\<forall>i\<le>j. fst (f (after_attempts f i w)) = Inl TimeoutException"
    and "k + j = n"
  shows "retry n k f w = (Inl RetryError, after_attempts f (Suc j) w)"
  using assms
proof (induction j arbitrary: k w)
  case 0
  then show ?case
    using retry_timeout_stop [of f w n k]
    by (simp add: after_attempts_0 after_attempts_Suc)
next
  case (Suc j)
  from Suc.prems(1) have t: "fst (f w) = Inl TimeoutException"
    using after_attempts_0 [of f w] by (metis zero_le)
  have "\<forall>i\<le>j. fst (f (after_attempts f i (snd (f w)))) = Inl TimeoutException"
    using Suc.prems(1) by (auto simp: after_attempts_Suc [symmetric])
  then have "retry n (Suc k) f (snd (f w)) = (Inl RetryError, after_attempts f (Suc j) (snd (f w)))"
    using Suc.IH [of "snd (f w)" "Suc k"] Suc.prems(2) by simp
  then show ?case
    using t Suc.prems(2) by (simp add: retry_timeout_again after_attempts_Suc)
qed

subsection \<open>The loops\<close>

lemma passes_Suc_right:
  "passes body (Suc n) st =
     (case passes body n st of Leave r \<Rightarrow> Leave r | Again st' \<Rightarrow> body st')"
proof (induction n arbitrary: st)
  case 0
  show ?case by (simp split: pass.splits)
next
  case (Suc n)
  show ?case
  proof (cases "body st")
    case (Leave r)
    then show ?thesis by simp
  next
    case (Again st')
    then have "passes body (Suc (Suc n)) st = passes body (Suc n) st'" by simp
    also have "\<dots> = (case passes body n st' of Leave r \<Rightarrow> Leave r | Again st'' \<Rightarrow> body st'')"
      by (rule Suc.IH)
    also have "passes body n st' = passes body (Suc n) st" using Again by simp
    finally show ?thesis .
  qed
qed

lemma passes_Leave_mono:
  "passes body n st = Leave r \<Longrightarrow> n \<le> m \<Longrightarrow> passes body m st = Leave r"
proof (induction n arbitrary: st m)
  case 0
  then show ?case by simp
next
  case (Suc n)
  then obtain m' where m: "m = Suc m'" "n \<le> m'" by (cases m) auto
  with Suc show ?case by (auto split: pass.splits)
qed

lemma passes_invariant:
  assumes "passes body n st = Leave r" and "I st"
    and "\<And>s s'. I s \<Longrightarrow> body s = Again s' \<Longrightarrow> I s'"
    and "\<And>s r. I s \<Longrightarrow> body s = Leave r \<Longrightarrow> Q r"
  shows "Q r"
  using assms(1,2)
proof (induction n arbitrary: st)
  case 0
  then show ?case by simp
next
  case (Suc n)
  then show ?case using assms(3,4) by (auto split: pass.splits)
qed

lemma part_loop_passes:
  "passes (part_body post fromiso v s e t) n st = Leave r \<Longrightarrow>
     part_loop post fromiso v s e t st = Some r"
proof (induction n arbitrary: st)
  case 0
  then show ?case by simp
next
  case (Suc n)
  show ?case
  proof (cases "part_body post fromiso v s e t st")
    case (Leave r')
    with Suc.prems show ?thesis by (subst part_loop.simps) simp
  next
    case (Again st')
    with Suc.prems have "passes (part_body post fromiso v s e t) n st' = Leave r" by simp
    then have "part_loop post fromiso v s e t st' = Some r" by (rule Suc.IH)
    with Again show ?thesis by (subst part_loop.simps) simp
  qed
qed

lemma all_loop_passes:
  "passes (all_body post fromiso v t) n st = Leave r \<Longrightarrow>
     all_loop post fromiso v t st = Some r"
proof (induction n arbitrary: st)
  case 0
  then show ?case by simp
next
  case (Suc n)
  show ?case
  proof (cases "all_body post fromiso v t st")
    case (Leave r')
    with Suc.prems show ?thesis by (subst all_loop.simps) simp
  next
    case (Again st')
    with Suc.prems have "passes (all_body post fromiso v t) n st' = Leave r" by simp
    then have "all_loop post fromiso v t st' = Some r" by (rule Suc.IH)
    with Again show ?thesis by (subst all_loop.simps) simp
  qed
qed

lemma part_loop_Some:
  assumes "part_loop post fromiso v s e t st = Some r"
  shows "\<exists>n. passes (part_body post fromiso v s e t) n st = Leave r"
proof (rule part_loop.raw_induct
    [where P = "\<lambda>post fromiso v s e t st r. \<exists>n. passes (part_body post fromiso v s e t) n st = Leave r", OF _ assms])
  fix loop post fromiso v s e t st r
  assume IH: "\<And>post fromiso v s e t st r. loop post fromiso v s e t st = Some r \<Longrightarrow>
      \<exists>n. passes (part_body post fromiso v s e t) n st = Leave r"
    and step: "(case part_body post fromiso v s e t st of Again st' \<Rightarrow> loop post fromiso v s e t st' | Leave r \<Rightarrow> Some r) = Some r"
  show "\<exists>n. passes (part_body post fromiso v s e t) n st = Leave r"
  proof (cases "part_body post fromiso v s e t st")
    case (Leave r')
    with step have "passes (part_body post fromiso v s e t) (Suc 0) st = Leave r" by simp
    then show ?thesis by blast
  next
    case (Again st')
    with step have "loop post fromiso v s e t st' = Some r" by simp
    from IH [OF this] obtain n where "passes (part_body post fromiso v s e t) n st' = Leave r" ..
    with Again have "passes (part_body post fromiso v s e t) (Suc n) st = Leave r" by simp
    then show ?thesis by blast
  qed
qed

lemma all_loop_Some:
  assumes "all_loop post fromiso v t st = Some r"
  shows "\<exists>n. passes (all_body post fromiso v t) n st = Leave r"
proof (rule all_loop.raw_induct
    [where P = "\<lambda>post fromiso v t st r. \<exists>n. passes (all_body post fromiso v t) n st = Leave r", OF _ assms])
  fix loop post fromiso v t st r
  assume IH: "\<And>post fromiso v t st r. loop post fromiso v t st = Some r \<Longrightarrow>
      \<exists>n. passes (all_body post fromiso v t) n st = Leave r"
    and step: "(case all_body post fromiso v t st of Again st' \<Rightarrow> loop post fromiso v t st' | Leave r \<Rightarrow> Some r) = Some r"
  show "\<exists>n. passes (all_body post fromiso v t) n st = Leave r"
  proof (cases "all_body post fromiso v t st")
    case (Leave r')
    with step have "passes (all_body post fromiso v t) (Suc 0) st = Leave r" by simp
    then show ?thesis by blast
  next
    case (Again st')
    with step have "loop post fromiso v t st' = Some r" by simp
    from IH [OF this] obtain n where "passes (all_body post fromiso v t) n st' = Leave r" ..
    with Again have "passes (all_body post fromiso v t) (Suc n) st = Leave r" by simp
    then show ?thesis by blast
  qed
qed

lemma consume_eq:
  "consume e cs result =
     (result @ takeWhile (\<lambda>c. offset c \<le> of_int e) cs, \<forall>c\<in>set cs. offset c \<le> of_int e)"
  by (induction cs arbitrary: result) (auto simp: not_less)

lemma part_body_error:
  "fetch post fromiso v s t cur w = (Inl err, w') \<Longrightarrow>
     part_body post fromiso v s e t (cur, res, w) = Leave (Inl err, w')"
  by (simp add: part_body_def)

lemma part_body_page:
  "fetch post fromiso v s t cur w = (Inr p, w') \<Longrightarrow>
     part_body post fromiso v s e t (cur, res, w) =
       (if truthy (next_page p) then
          if chats p = [] then Leave (Inl IndexError, w')
          else if \<forall>c\<in>set (chats p). offset c \<le> of_int e
            then Again (Some (cursor (last (chats p))), res @ chats p, w')
            else Leave (Inr (res @ takeWhile (\<lambda>c. offset c \<le> of_int e) (chats p)), w')
        else Leave (Inr (res @ takeWhile (\<lambda>c. offset c \<le> of_int e) (chats p)), w'))"
  by (auto simp: part_body_def consume_eq py_index_last takeWhile_eq_all_conv)

lemma all_body_error:
  "fetch post fromiso v 0 t cur w = (Inl err, w') \<Longrightarrow>
     all_body post fromiso v t (cur, res, w) = Leave (Inl err, w')"
  by (simp add: all_body_def)

lemma all_body_page:
  "fetch post fromiso v 0 t cur w = (Inr p, w') \<Longrightarrow>
     all_body post fromiso v t (cur, res, w) =
       (if \<not> is_number (part_time p) then Leave (Inl TypeError, w')
        else if truthy (next_page p) then
          if chats p = [] then Leave (Inl IndexError, w')
          else Again (Some (cursor (last (chats p))), res @ chats p, w')
        else Leave (Inr (res @ chats p), w'))"
  by (auto simp: all_body_def py_index_last)

lemma fetch_Inr:
  assumes "fetch post fromiso v s t cur w = (Inr p, w')"
  shows "\<exists>req w0 resp. post req w0 = (Inr resp, w') \<and> read_page fromiso resp t = Inr p"
proof -
  from assms have
    "(\<exists>w0. get_chat_by_offset_attempt post fromiso v s t w0 = (Inr p, w')) \<or>
     (\<exists>c w0. get_chat_by_cursor_attempt post fromiso v c t w0 = (Inr p, w'))"
    by (auto simp: fetch_def get_chat_by_offset_def get_chat_by_cursor_def
        split: option.splits if_splits dest: retry_Inr)
  then show ?thesis
  proof (elim disjE exE)
    fix w0 assume a: "get_chat_by_offset_attempt post fromiso v s t w0 = (Inr p, w')"
    obtain r w1 where pw: "post (VideoCommentByOffsetReq v s) w0 = (r, w1)" by fastforce
    with a show ?thesis
      by (cases r) (auto simp: get_chat_by_offset_attempt_def)
  next
    fix c w0 assume a: "get_chat_by_cursor_attempt post fromiso v c t w0 = (Inr p, w')"
    obtain r w1 where pw: "post (VideoCommentByCursorReq v c) w0 = (r, w1)" by fastforce
    with a show ?thesis
      by (cases r) (auto simp: get_chat_by_cursor_attempt_def)
  qed
qed

subsection \<open>The sample responses\<close>

lemmas sample_defs =
  sample_comments_def sample_edge_def sample_commenter_def sample_chat_def sample_clock_def
  sample_owner_def sample_metadata_def

lemmas read_defs =
  read_page_def comments_of_def has_commenter_def from_raw_data_def
  calculate_time_difference_def py_index_def

lemma read_early_page:
  "read_page sample_clock early_page (JStr ''00:00'') =
     Inr \<lparr>next_page = JBool False, chats = [sample_chat ''c1'' ''hi'' 5], part_time = JInt 5\<rparr>"
  by (simp add: early_page_def read_defs sample_defs)

lemma read_window_page:
  "read_page sample_clock window_page (JStr ''00:00'') =
     Inr \<lparr>next_page = JBool True,
          chats = [sample_chat ''c1'' ''hello'' 12, sample_chat ''c2'' ''bye'' 15,
                   sample_chat ''c3'' ''late'' 30],
          part_time = JInt 30\<rparr>"
  by (simp add: window_page_def read_defs sample_defs)

lemma read_sample_owner: "read_page fromiso sample_owner st = Inl KeyError"
  by (simp add: read_defs sample_defs)

lemma read_sample_metadata: "read_page fromiso sample_metadata st = Inl KeyError"
  by (simp add: read_defs sample_defs)

lemma start_time_scripted:
  "get_video_start_time (scripted_post (Inr sample_owner # Inr sample_metadata # rest)) v 0 =
     (Inr (JStr ''00:00''), 2)"
  by (simp add: get_video_start_time_def video_metadata_def scripted_post_def sample_defs
      py_index_def)

lemma fetch_scripted_offset:
  "k < length script \<Longrightarrow> script ! k = Inr resp \<Longrightarrow>
     fetch (scripted_post script) fromiso v s st None k = (read_page fromiso resp st, Suc k)"
  using read_page_no_timeout [of fromiso resp st]
  by (simp add: fetch_def get_chat_by_offset_def get_chat_by_offset_attempt_def
      scripted_post_def retry_other)

lemma scripted_post_Inr:
  "scripted_post script req w0 = (Inr resp, w2) \<Longrightarrow> Inr resp \<in> set script"
  by (auto simp: scripted_post_def split: if_splits) (metis nth_mem)

subsection \<open>What a successful page fetch has read\<close>

lemma has_commenter_commenter_of:
  "has_commenter i = rbind (commenter_of i) (\<lambda>c. Inr (truthy c))"
  by (simp add: has_commenter_def commenter_of_def)

lemma get_chat_Inr:
  assumes "get_chat_by_offset post fromiso v a_offset st w = (Inr p, w') \<or>
           get_chat_by_cursor post fromiso v a_cursor st w = (Inr p, w')"
  shows "\<exists>req w0 resp.
           (req = VideoCommentByOffsetReq v a_offset \<or> req = VideoCommentByCursorReq v a_cursor) \<and>
           post req w0 = (Inr resp, w') \<and> read_page fromiso resp st = Inr p"
  using assms
proof
  assume "get_chat_by_offset post fromiso v a_offset st w = (Inr p, w')"
  then obtain w0 where a: "get_chat_by_offset_attempt post fromiso v a_offset st w0 = (Inr p, w')"
    unfolding get_chat_by_offset_def by (blast dest: retry_Inr)
  obtain r w1 where pw: "post (VideoCommentByOffsetReq v a_offset) w0 = (r, w1)" by fastforce
  with a show ?thesis
    by (cases r) (auto simp: get_chat_by_offset_attempt_def)
next
  assume "get_chat_by_cursor post fromiso v a_cursor st w = (Inr p, w')"
  then obtain w0 where a: "get_chat_by_cursor_attempt post fromiso v a_cursor st w0 = (Inr p, w')"
    unfolding get_chat_by_cursor_def by (blast dest: retry_Inr)
  obtain r w1 where pw: "post (VideoCommentByCursorReq v a_cursor) w0 = (r, w1)" by fastforce
  with a show ?thesis
    by (cases r) (auto simp: get_chat_by_cursor_attempt_def)
qed

lemma edges_of_sample_comments: "edges_of (sample_comments edges b) = Inr (JArr edges)"
  by (simp add: edges_of_def comments_of_def sample_comments_def py_index_def)

lemma commenter_of_sample_edge: "commenter_of (sample_edge c commenter t d n) = Inr commenter"
  by (simp add: commenter_of_def sample_edge_def)

lemma read_mixed_page:
  "read_page sample_clock mixed_page (JStr ''00:00'') =
     Inr \<lparr>next_page = JBool False,
          chats = [sample_chat ''c1'' ''hi'' 5, sample_chat ''c3'' ''yo'' 15],
          part_time = JInt 30\<rparr>"
  by (simp add: mixed_page_def read_defs sample_defs)

lemma get_chat_by_offset_scripted:
  "k < length script \<Longrightarrow> script ! k = Inr resp \<Longrightarrow>
     get_chat_by_offset (scripted_post script) fromiso v a st k =
       (read_page fromiso resp st, Suc k)"
  using read_page_no_timeout [of fromiso resp st]
  by (simp add: get_chat_by_offset_def get_chat_by_offset_attempt_def
      scripted_post_def retry_other)

lemma get_chat_by_cursor_scripted:
  "k < length script \<Longrightarrow> script ! k = Inr resp \<Longrightarrow>
     get_chat_by_cursor (scripted_post script) fromiso v c st k =
       (read_page fromiso resp st, Suc k)"
  using read_page_no_timeout [of fromiso resp st]
  by (simp add: get_chat_by_cursor_def get_chat_by_cursor_attempt_def
      scripted_post_def retry_other)

subsection \<open>The retried attempts\<close>

lemma retry_five:
  "(fst (f w) \<noteq> Inl TimeoutException \<longrightarrow> retry 5 1 f w = f w) \<and>
   (\<forall>j<5. (\<forall>i<j. fst (f (after_attempts f i w)) = Inl TimeoutException) \<and>
           fst (f (after_attempts f j w)) \<noteq> Inl TimeoutException \<longrightarrow>
           retry 5 1 f w = f (after_attempts f j w)) \<and>
   ((\<forall>i<5. fst (f (after_attempts f i w)) = Inl TimeoutException) \<longrightarrow>
      retry 5 1 f w = (Inl RetryError, after_attempts f 5 w))"
proof (intro conjI impI allI)
  assume "fst (f w) \<noteq> Inl TimeoutException"
  then show "retry 5 1 f w = f w" by (rule retry_other)
next
  fix j :: nat
  assume "j < 5"
    and "(\<forall>i<j. fst (f (after_attempts f i w)) = Inl TimeoutException) \<and>
           fst (f (after_attempts f j w)) \<noteq> Inl TimeoutException"
  then show "retry 5 1 f w = f (after_attempts f j w)"
    by (intro retry_after_timeouts) simp_all
next
  assume "\<forall>i<5. fst (f (after_attempts f i w)) = Inl TimeoutException"
  then have "\<forall>i\<le>4. fst (f (after_attempts f i w)) = Inl TimeoutException" by simp
  from retry_all_timeouts [OF this, of 1 5] show "retry 5 1 f w = (Inl RetryError, after_attempts f 5 w)"
    by (simp add: eval_nat_numeral)
qed

lemma after_attempts_counting:
  assumes "\<And>v. snd (f v) = Suc v"
  shows "after_attempts f i w = w + i"
  by (induction i arbitrary: w) (simp_all add: after_attempts_0 after_attempts_Suc assms)

lemma offset_attempt_scripted:
  "get_chat_by_offset_attempt (scripted_post script) fromiso v a st w =
     (if w < length script
      then (case script ! w of Inl e \<Rightarrow> Inl e | Inr resp \<Rightarrow> read_page fromiso resp st)
      else Inl NetworkError, Suc w)"
  by (simp add: get_chat_by_offset_attempt_def scripted_post_def split: sum.splits)

lemma cursor_attempt_scripted:
  "get_chat_by_cursor_attempt (scripted_post script) fromiso v c st w =
     (if w < length script
      then (case script ! w of Inl e \<Rightarrow> Inl e | Inr resp \<Rightarrow> read_page fromiso resp st)
      else Inl NetworkError, Suc w)"
  by (simp add: get_chat_by_cursor_attempt_def scripted_post_def split: sum.splits)

subsection \<open>Pages without records\<close>

lemma fetch_post:
  assumes "post (request_for v s cur) w = (Inr resp, w')"
  shows "fetch post fromiso v s st cur w = (read_page fromiso resp st, w')"
proof -
  have o: "get_chat_by_offset post fromiso v s st w = (read_page fromiso resp st, w')"
    if "post (VideoCommentByOffsetReq v s) w = (Inr resp, w')"
    unfolding get_chat_by_offset_def
    by (subst retry_other)
      (simp_all add: get_chat_by_offset_attempt_def that read_page_no_timeout)
  have c: "get_chat_by_cursor post fromiso v k st w = (read_page fromiso resp st, w')"
    if "post (VideoCommentByCursorReq v k) w = (Inr resp, w')" for k
    unfolding get_chat_by_cursor_def
    by (subst retry_other)
      (simp_all add: get_chat_by_cursor_attempt_def that read_page_no_timeout)
  from assms o c show ?thesis
    by (auto simp: fetch_def request_for_def split: option.splits if_splits)
qed

lemma read_page_empty:
  assumes "edges_of resp = Inr (JArr [])" and "has_next_page_of resp = Inr flag"
  shows "read_page fromiso resp st = Inl IndexError"
proof -
  from assms obtain comments where
    "comments_of resp = Inr comments" "getitem_str comments ''edges'' = Inr (JArr [])"
    "getpath comments [''pageInfo'', ''hasNextPage''] = Inr flag"
    by (auto simp: edges_of_def has_next_page_of_def rbind_Inr_iff)
  then show ?thesis
    by (simp add: read_page_def py_index_last del: getpath.simps)
qed

lemma comprehension_if_none:
  "\<forall>i\<in>set xs. c i = Inr False \<Longrightarrow> comprehension_if c xs = Inr []"
  by (induction xs) simp_all

lemma read_page_all_null:
  assumes "edges_of resp = Inr (JArr entries)" and "has_next_page_of resp = Inr flag"
    and "entries \<noteq> []" and "\<forall>i\<in>set entries. commenter_of i = Inr JNull"
    and "getpath (last entries) [''node'', ''contentOffsetSeconds''] = Inr pt"
  shows "read_page fromiso resp st = Inr \<lparr>next_page = flag, chats = [], part_time = pt\<rparr>"
proof -
  from assms(1,2) obtain comments where
    "comments_of resp = Inr comments" "getitem_str comments ''edges'' = Inr (JArr entries)"
    "getpath comments [''pageInfo'', ''hasNextPage''] = Inr flag"
    by (auto simp: edges_of_def has_next_page_of_def rbind_Inr_iff)
  moreover have "comprehension_if has_commenter entries = Inr []"
    using assms(4) by (intro comprehension_if_none) (simp add: has_commenter_commenter_of)
  ultimately show ?thesis
    using assms(3,5) by (simp add: read_page_def py_index_last del: getpath.simps)
qed

lemma has_next_page_of_sample_comments:
  "has_next_page_of (sample_comments edges b) = Inr (JBool b)"
  by (simp add: has_next_page_of_def comments_of_def sample_comments_def py_index_def)

lemma metadata_scripted:
  "get_video_start_time
     (scripted_post (Inr sample_owner # Inr sample_metadata # Inr sample_owner #
        Inr sample_metadata # rest)) v 0 = (Inr (JStr ''00:00''), 2) \<and>
   get_video_length
     (scripted_post (Inr sample_owner # Inr sample_metadata # Inr sample_owner #
        Inr sample_metadata # rest)) v 2 = (Inr (JInt 3600), 4)"
  by (simp add: get_video_start_time_def get_video_length_def video_metadata_def
      scripted_post_def sample_defs py_index_def numeral_2_eq_2)

subsection \<open>Termination\<close>

lemma part_loop_leaves:
  assumes "part_page_closes post fromiso v s e st st0 n"
  shows "\<exists>r. passes (part_body post fromiso v s e st) (Suc n) st0 = Leave r"
proof (cases "passes (part_body post fromiso v s e st) n st0")
  case (Leave r)
  then have "passes (part_body post fromiso v s e st) (Suc n) st0 = Leave r"
    by (rule passes_Leave_mono) simp
  then show ?thesis ..
next
  case (Again st1)
  obtain cur res w where st1: "st1 = (cur, res, w)" by (cases st1) auto
  have step: "passes (part_body post fromiso v s e st) (Suc n) st0 =
      part_body post fromiso v s e st (cur, res, w)"
    by (simp only: passes_Suc_right Again st1 pass.case)
  obtain q w' where f: "fetch post fromiso v s st cur w = (q, w')" by fastforce
  show ?thesis
  proof (cases q)
    case (Inl err)
    with f have "fetch post fromiso v s st cur w = (Inl err, w')" by simp
    from part_body_error [OF this] show ?thesis unfolding step by blast
  next
    case (Inr p)
    with f have f': "fetch post fromiso v s st cur w = (Inr p, w')" by simp
    with assms Again st1 have "page_closes e p"
      unfolding part_page_closes_def by blast
    then have "\<not> truthy (next_page p) \<or> \<not> (\<forall>c\<in>set (chats p). offset c \<le> of_int e)"
      by (auto simp: page_closes_def not_le)
    then show ?thesis unfolding step part_body_page [OF f'] by auto
  qed
qed

lemma all_loop_leaves:
  assumes "all_page_ends post fromiso v st st0 n"
  shows "\<exists>r. passes (all_body post fromiso v st) (Suc n) st0 = Leave r"
proof (cases "passes (all_body post fromiso v st) n st0")
  case (Leave r)
  then have "passes (all_body post fromiso v st) (Suc n) st0 = Leave r"
    by (rule passes_Leave_mono) simp
  then show ?thesis ..
next
  case (Again st1)
  obtain cur res w where st1: "st1 = (cur, res, w)" by (cases st1) auto
  have step: "passes (all_body post fromiso v st) (Suc n) st0 =
      all_body post fromiso v st (cur, res, w)"
    by (simp only: passes_Suc_right Again st1 pass.case)
  obtain q w' where f: "fetch post fromiso v 0 st cur w = (q, w')" by fastforce
  show ?thesis
  proof (cases q)
    case (Inl err)
    with f have "fetch post fromiso v 0 st cur w = (Inl err, w')" by simp
    from all_body_error [OF this] show ?thesis unfolding step by blast
  next
    case (Inr p)
    with f have f': "fetch post fromiso v 0 st cur w = (Inr p, w')" by simp
    with assms Again st1 have "\<not> truthy (next_page p)"
      unfolding all_page_ends_def by blast
    then show ?thesis unfolding step all_body_page [OF f'] by auto
  qed
qed

lemma read_far_page:
  "read_page sample_clock far_page (JStr ''00:00'') =
     Inr \<lparr>next_page = JBool True, chats = [sample_chat ''c1'' ''late'' 30],
          part_time = JInt 30\<rparr>"
  by (simp add: far_page_def read_defs sample_defs)

lemma fetch_endless:
  "fetch (endless_post a_page) fromiso v s st cur w = (read_page fromiso a_page st, Suc w)"
  by (rule fetch_post) (simp add: request_for_def endless_post_def split: option.splits)

lemma metadata_endless:
  "get_video_start_time (endless_post a_page) v w = (Inr (JStr ''00:00''), Suc (Suc w)) \<and>
   get_video_length (endless_post a_page) v w = (Inr (JInt 3600), Suc (Suc w))"
  by (simp add: get_video_start_time_def get_video_length_def video_metadata_def
      endless_post_def sample_defs py_index_def)

lemma all_body_endless:
  "all_body (endless_post far_page) sample_clock v (JStr ''00:00'') (cur, res, w) =
     Again (Some ''c1'', res @ [sample_chat ''c1'' ''late'' 30], Suc w)"
proof -
  have "fetch (endless_post far_page) sample_clock v 0 (JStr ''00:00'') cur w =
      (Inr \<lparr>next_page = JBool True, chats = [sample_chat ''c1'' ''late'' 30],
          part_time = JInt 30\<rparr>, Suc w)"
    by (simp add: fetch_endless read_far_page)
  from all_body_page [OF this] show ?thesis by (simp add: sample_chat_def)
qed

lemma passes_never_leaves:
  assumes "\<And>st. \<exists>st'. body st = Again st'"
  shows "passes body n st \<noteq> Leave r"
proof (induction n arbitrary: st)
  case 0
  show ?case by simp
next
  case (Suc n)
  from assms obtain st' where "body st = Again st'" by blast
  with Suc show ?case by simp
qed

lemma all_loop_endless:
  "all_loop (endless_post far_page) sample_clock v (JStr ''00:00'') st = None"
proof (cases "all_loop (endless_post far_page) sample_clock v (JStr ''00:00'') st")
  case None
  then show ?thesis .
next
  case (Some r)
  from all_loop_Some [OF this] obtain n where
    n: "passes (all_body (endless_post far_page) sample_clock v (JStr ''00:00'')) n st = Leave r" ..
  have "passes (all_body (endless_post far_page) sample_clock v (JStr ''00:00'')) n st \<noteq> Leave r"
  proof (rule passes_never_leaves)
    fix st1 :: "string option \<times> SimpleChat list \<times> nat"
    show "\<exists>st'. all_body (endless_post far_page) sample_clock v (JStr ''00:00'') st1 = Again st'"
      by (cases st1) (simp add: all_body_endless)
  qed
  with n show ?thesis by simp
qed

subsection \<open>The keyword search\<close>

lemma startswith_iff: "startswith s k \<longleftrightarrow> (\<exists>q. s = k @ q)"
  by (induction s k rule: startswith.induct) auto

lemma py_in_iff: "py_in k s \<longleftrightarrow> (\<exists>p q. s = p @ k @ q)"
proof (induction s)
  case Nil
  show ?case by auto
next
  case (Cons c s)
  have "(\<exists>p q. c # s = p @ k @ q) \<longleftrightarrow> (\<exists>q. c # s = k @ q) \<or> (\<exists>p q. s = p @ k @ q)"
  proof
    assume "\<exists>p q. c # s = p @ k @ q"
    then obtain p q where pq: "c # s = p @ k @ q" by blast
    show "(\<exists>q. c # s = k @ q) \<or> (\<exists>p q. s = p @ k @ q)"
    proof (cases p)
      case Nil
      with pq show ?thesis by auto
    next
      case (Cons d p')
      with pq have "s = p' @ k @ q" by simp
      then show ?thesis by blast
    qed
  next
    assume "(\<exists>q. c # s = k @ q) \<or> (\<exists>p q. s = p @ k @ q)"
    then show "\<exists>p q. c # s = p @ k @ q"
    proof
      assume "\<exists>q. c # s = k @ q"
      then obtain q where "c # s = [] @ k @ q" by auto
      then show ?thesis by blast
    next
      assume "\<exists>p q. s = p @ k @ q"
      then obtain p q where "c # s = (c # p) @ k @ q" by auto
      then show ?thesis by blast
    qed
  qed
  with Cons show ?case by (simp add: startswith_iff)
qed

lemma count_list_replicate: "count_list (replicate n x) y = (if x = y then n else 0)"
  by (induction n) auto

lemma count_list_concat_replicate:
  "count_list (concat (map (\<lambda>x. replicate (f x) x) xs)) y = count_list xs y * f y"
  by (induction xs) (auto simp: count_list_replicate)

subsection \<open>The export\<close>

lemma set_final_chats:
  "set_iteration set_iter \<Longrightarrow>
     set (final_chats set_iter a_chats s) = (\<lambda>c. from_simple_chat c s) ` set a_chats"
  by (simp add: final_chats_def set_iteration_def)

lemma distinct_final_chats:
  "set_iteration set_iter \<Longrightarrow> distinct (final_chats set_iter a_chats s)"
  by (simp add: final_chats_def set_iteration_def)

lemma sorted_final_chats: "sorted (map x_offset (final_chats set_iter a_chats s))"
  by (simp add: final_chats_def)

lemma set_iteration_remdups: "set_iteration remdups"
  by (simp add: set_iteration_def)

lemma set_iteration_rev_remdups: "set_iteration (\<lambda>xs. rev (remdups xs))"
  by (simp add: set_iteration_def)

lemma get_sec_sample:
  "get_sec sample_int ''00:00:10'' = Inr 10 \<and> get_sec sample_int ''00:00:20'' = Inr 20"
  by (simp add: get_sec_def int_of_def sample_int_def)

lemma get_part_chat_window_page:
  "get_part_chat (scripted_post [Inr sample_owner, Inr sample_metadata, Inr window_page])
     sample_clock 1 10 20 0 =
     Some (Inr [sample_chat ''c1'' ''hello'' 12, sample_chat ''c2'' ''bye'' 15], 3)"
proof -
  let ?post = "scripted_post [Inr sample_owner, Inr sample_metadata, Inr window_page]"
  have "part_body ?post sample_clock 1 10 20 (JStr ''00:00'') (None, [], 2) =
        Leave (Inr [sample_chat ''c1'' ''hello'' 12, sample_chat ''c2'' ''bye'' 15], 3)"
    by (simp add: part_body_def fetch_scripted_offset read_window_page sample_chat_def
        py_index_last numeral_2_eq_2 numeral_3_eq_3)
  then have "part_loop ?post sample_clock 1 10 20 (JStr ''00:00'') (None, [], 2) =
        Some (Inr [sample_chat ''c1'' ''hello'' 12, sample_chat ''c2'' ''bye'' 15], 3)"
    by (subst part_loop.simps) simp
  then show ?thesis
    by (simp add: get_part_chat_def start_time_scripted)
qed

lemma final_chats_sample:
  "final_chats remdups
     [sample_chat ''c2'' ''bye'' 15, sample_chat ''c1'' ''hello'' 12,
      sample_chat ''c2'' ''bye'' 15] 10 =
     [\<lparr>x_displayName = ''Ann'', x_text = ''hello'', x_offset = 2\<rparr>,
      \<lparr>x_displayName = ''Ann'', x_text = ''bye'', x_offset = 5\<rparr>]"
  by (simp add: final_chats_def from_simple_chat_def sample_chat_def)

lemma sorted_key_unique:
  assumes "sorted (map f xs)" and "sorted (map f ys)" and "distinct xs" and "distinct ys"
    and "set xs = set ys" and "inj_on f (set xs)"
  shows "xs = ys"
proof -
  have "distinct (map f xs)" and "distinct (map f ys)"
    using assms(3-6) by (simp_all add: distinct_map)
  moreover have "set (map f xs) = set (map f ys)"
    using assms(5) by simp
  ultimately have "map f xs = map f ys"
    using assms(1,2) by (intro sorted_distinct_set_unique)
  then show ?thesis
    using assms(5,6) by (simp add: inj_on_map_eq_map [of f xs ys])
qed

lemma final_chats_tie:
  "final_chats remdups [sample_chat ''c1'' ''hello'' 12, sample_chat ''c2'' ''bye'' 12] 10 =
     [\<lparr>x_displayName = ''Ann'', x_text = ''hello'', x_offset = 2\<rparr>,
      \<lparr>x_displayName = ''Ann'', x_text = ''bye'', x_offset = 2\<rparr>] \<and>
   final_chats (\<lambda>xs. rev (remdups xs))
     [sample_chat ''c1'' ''hello'' 12, sample_chat ''c2'' ''bye'' 12] 10 =
     [\<lparr>x_displayName = ''Ann'', x_text = ''bye'', x_offset = 2\<rparr>,
      \<lparr>x_displayName = ''Ann'', x_text = ''hello'', x_offset = 2\<rparr>]"
  by (simp add: final_chats_def from_simple_chat_def sample_chat_def)

subsection \<open>The log line of the keyword search\<close>

lemma py_round_bounds: "of_int (py_round y) \<le> y + 1 / 2 \<and> y - 1 / 2 \<le> of_int (py_round y)"
proof -
  have "of_int \<lfloor>y\<rfloor> \<le> y" and "y < of_int \<lfloor>y\<rfloor> + 1" by linarith+
  then show ?thesis
    unfolding py_round_def Let_def by (simp; linarith)
qed

lemma timedelta_error: "timedelta x = Inl e \<Longrightarrow> e = OverflowError"
  by (auto simp: timedelta_def Let_def split: if_splits)

lemma timedelta_in_range:
  assumes "\<bar>x\<bar> \<le> 86399999913600"
  shows "timedelta x \<noteq> Inl OverflowError"
proof -
  define whole where "whole = (if 0 \<le> x then \<lfloor>x\<rfloor> else \<lceil>x\<rceil>)"
  define us where "us = whole * 1000000 + py_round ((x - of_int whole) * 1000000)"
  have "(of_int us :: rat) = of_int whole * 1000000 + of_int (py_round ((x - of_int whole) * 1000000))"
    by (simp add: us_def)
  with py_round_bounds [of "(x - of_int whole) * 1000000"]
  have "(of_int us :: rat) \<le> x * 1000000 + 1 / 2" and "x * 1000000 - 1 / 2 \<le> of_int us"
    by (simp_all add: algebra_simps)
  with assms have "(of_int us :: rat) < of_int (86399999913600000000 + 1)"
    and "(of_int (- 86399999913600000000 - 1) :: rat) < of_int us"
    by (simp_all add: abs_le_iff)
  then have "us \<le> 86399999913600000000" and "- 86399999913600000000 \<le> us"
    unfolding of_int_less_iff by linarith+
  then have "us div 86400000000 \<le> 86399999913600000000 div 86400000000"
    and "(- 86399999913600000000) div 86400000000 \<le> us div 86400000000"
    by (intro zdiv_mono1; simp)+
  then have "\<bar>us div 86400000000\<bar> \<le> 999999999" by simp
  then have "\<not> 999999999 < \<bar>us div 86400000000\<bar>" by simp
  then show ?thesis
    unfolding timedelta_def Let_def whole_def [symmetric] us_def [symmetric]
    by (simp only: if_False) simp
qed

lemma keyword_loop_eq:
  "keyword_loop s chat kws results =
     (if (\<exists>keyword\<in>set kws. py_in keyword (displayName chat) \<or> py_in keyword (chat_text chat)) \<and>
         timedelta (offset chat - of_int s) = Inl OverflowError
      then Inl OverflowError
      else Inr (results @ replicate
        (length (filter (\<lambda>keyword. py_in keyword (displayName chat) \<or>
           py_in keyword (chat_text chat)) kws)) chat))"
proof (cases "timedelta (offset chat - of_int s)")
  case (Inl e)
  then have t: "timedelta (offset chat - of_int s) = Inl OverflowError"
    using timedelta_error by blast
  show ?thesis
    by (induction kws arbitrary: results) (simp_all add: t)
next
  case (Inr us)
  show ?thesis
    by (induction kws arbitrary: results) (simp_all add: Inr replicate_app_Cons_same)
qed

lemma chat_loop_eq:
  "chat_loop s a_chats kws results =
     (if \<exists>chat\<in>set a_chats.
           (\<exists>keyword\<in>set kws. py_in keyword (displayName chat) \<or>
              py_in keyword (chat_text chat)) \<and>
           timedelta (offset chat - of_int s) = Inl OverflowError
      then Inl OverflowError
      else Inr (results @ concat (map (\<lambda>chat. replicate
        (length (filter (\<lambda>keyword. py_in keyword (displayName chat) \<or>
           py_in keyword (chat_text chat)) kws)) chat) a_chats)))"
  by (induction a_chats arbitrary: results) (simp_all add: keyword_loop_eq)

lemma main_after_retrieval:
  assumes "get_sec py_int start_time = Inr s" and "get_sec py_int end_time = Inr e"
    and "get_part_chat post fromiso v s e w = Some (Inr a_chats, w')"
  shows "main post fromiso py_int set_iter uuid_hex v start_time end_time kws (w, fs) =
           (case search_keywords a_chats kws s of
               Inl err \<Rightarrow> Some (Inl err, w', fs)
             | Inr found \<Rightarrow>
                 Some (Inr (), w',
                   if found = [] then fs else export set_iter uuid_hex found s fs))"
  using assms by (simp add: main_def split: sum.splits)

subsection \<open>The filter on the commenter\<close>

lemma has_commenter_iff: "has_commenter i = Inr True \<longleftrightarrow> truthy_commenter i"
  by (cases "commenter_of i") (simp_all add: has_commenter_commenter_of truthy_commenter_def)

lemma comprehension_if_filter:
  "\<forall>x\<in>set xs. \<exists>b. c x = Inr b \<Longrightarrow>
     comprehension_if c xs = Inr (filter (\<lambda>x. c x = Inr True) xs)"
  by (induction xs) auto

lemma read_page_of_shape:
  assumes "edges_of resp = Inr (JArr entries)" and "has_next_page_of resp = Inr flag"
    and "entries \<noteq> []"
    and "getpath (last entries) [''node'', ''contentOffsetSeconds''] = Inr pt"
    and "\<forall>i\<in>set entries. \<exists>c. commenter_of i = Inr c"
    and "comprehension (\<lambda>raw_data. from_raw_data fromiso raw_data st)
           (filter truthy_commenter entries) = Inr cs"
  shows "read_page fromiso resp st = Inr \<lparr>next_page = flag, chats = cs, part_time = pt\<rparr>"
proof -
  from assms(1,2) obtain comments where
    "comments_of resp = Inr comments" "getitem_str comments ''edges'' = Inr (JArr entries)"
    "getpath comments [''pageInfo'', ''hasNextPage''] = Inr flag"
    by (auto simp: edges_of_def has_next_page_of_def rbind_Inr_iff)
  moreover have "\<forall>i\<in>set entries. \<exists>b. has_commenter i = Inr b"
    using assms(5) by (auto simp: has_commenter_commenter_of)
  then have "comprehension_if has_commenter entries = Inr (filter truthy_commenter entries)"
    by (simp add: comprehension_if_filter has_commenter_iff)
  ultimately show ?thesis
    using assms(3,4,6) by (simp add: read_page_def py_index_last del: getpath.simps)
qed

lemma get_chat_by_offset_post:
  assumes "post (VideoCommentByOffsetReq v a) w = (Inr resp, w')"
  shows "get_chat_by_offset post fromiso v a st w = (read_page fromiso resp st, w')"
  unfolding get_chat_by_offset_def
  by (subst retry_other)
    (simp_all add: get_chat_by_offset_attempt_def assms read_page_no_timeout)

lemma get_chat_by_cursor_post:
  assumes "post (VideoCommentByCursorReq v c) w = (Inr resp, w')"
  shows "get_chat_by_cursor post fromiso v c st w = (read_page fromiso resp st, w')"
  unfolding get_chat_by_cursor_def
  by (subst retry_other)
    (simp_all add: get_chat_by_cursor_attempt_def assms read_page_no_timeout)

lemma read_page_kept:
  assumes "read_page fromiso resp st = Inr p"
  shows "\<exists>entries. edges_of resp = Inr (JArr entries) \<and>
           comprehension (\<lambda>raw_data. from_raw_data fromiso raw_data st)
             (filter truthy_commenter entries) = Inr (chats p)"
proof -
  from read_page_Inr [OF assms] obtain entries where
    e: "edges_of resp = Inr (JArr entries)" and
    m: "map Inr (chats p) =
          map (\<lambda>raw_data. from_raw_data fromiso raw_data st)
            (filter (\<lambda>i. has_commenter i = Inr True) entries)" by blast
  from m have "comprehension (\<lambda>raw_data. from_raw_data fromiso raw_data st)
             (filter truthy_commenter entries) = Inr (chats p)"
    by (simp add: comprehension_Inr_iff has_commenter_iff)
  with e show ?thesis by blast
qed

lemma truthy_iff:
  "truthy c \<longleftrightarrow>
     c \<notin> {JNull, JBool False, JInt 0, JFloat 0, JStr [], JArr [], JObj []}"
  by (cases c) auto

lemma get_chat_by_offset_Inr:
  assumes "get_chat_by_offset post fromiso v a st w = (Inr p, w')"
  shows "\<exists>w0 resp. post (VideoCommentByOffsetReq v a) w0 = (Inr resp, w') \<and>
           read_page fromiso resp st = Inr p"
proof -
  from assms obtain w0 where
    a: "get_chat_by_offset_attempt post fromiso v a st w0 = (Inr p, w')"
    unfolding get_chat_by_offset_def by (blast dest: retry_Inr)
  obtain r w1 where "post (VideoCommentByOffsetReq v a) w0 = (r, w1)" by fastforce
  with a show ?thesis
    by (cases r) (auto simp: get_chat_by_offset_attempt_def)
qed

lemma get_chat_by_cursor_Inr:
  assumes "get_chat_by_cursor post fromiso v c st w = (Inr p, w')"
  shows "\<exists>w0 resp. post (VideoCommentByCursorReq v c) w0 = (Inr resp, w') \<and>
           read_page fromiso resp st = Inr p"
proof -
  from assms obtain w0 where
    a: "get_chat_by_cursor_attempt post fromiso v c st w0 = (Inr p, w')"
    unfolding get_chat_by_cursor_def by (blast dest: retry_Inr)
  obtain r w1 where "post (VideoCommentByCursorReq v c) w0 = (r, w1)" by fastforce
  with a show ?thesis
    by (cases r) (auto simp: get_chat_by_cursor_attempt_def)
qed

lemma mixed_page_shape:
  "edges_of mixed_page =
     Inr (JArr [sample_edge ''c1'' sample_commenter ''hi'' ''00:05'' 5,
                sample_edge ''c2'' JNull ''x'' ''00:12'' 12,
                sample_edge ''c3'' sample_commenter ''yo'' ''00:15'' 15,
                sample_edge ''c4'' JNull ''gone'' ''00:30'' 30]) \<and>
   [sample_edge ''c1'' sample_commenter ''hi'' ''00:05'' 5,
    sample_edge ''c2'' JNull ''x'' ''00:12'' 12,
    sample_edge ''c3'' sample_commenter ''yo'' ''00:15'' 15,
    sample_edge ''c4'' JNull ''gone'' ''00:30'' 30] \<noteq> [] \<and>
   has_next_page_of mixed_page = Inr (JBool False) \<and>
   getpath (last [sample_edge ''c1'' sample_commenter ''hi'' ''00:05'' 5,
                  sample_edge ''c2'' JNull ''x'' ''00:12'' 12,
                  sample_edge ''c3'' sample_commenter ''yo'' ''00:15'' 15,
                  sample_edge ''c4'' JNull ''gone'' ''00:30'' 30])
     [''node'', ''contentOffsetSeconds''] = Inr (JInt 30) \<and>
   (\<forall>i\<in>set [sample_edge ''c1'' sample_commenter ''hi'' ''00:05'' 5,
             sample_edge ''c2'' JNull ''x'' ''00:12'' 12,
             sample_edge ''c3'' sample_commenter ''yo'' ''00:15'' 15,
             sample_edge ''c4'' JNull ''gone'' ''00:30'' 30]. \<exists>c. commenter_of i = Inr c) \<and>
   comprehension (\<lambda>raw_data. from_raw_data sample_clock raw_data (JStr ''00:00''))
     (filter truthy_commenter
        [sample_edge ''c1'' sample_commenter ''hi'' ''00:05'' 5,
         sample_edge ''c2'' JNull ''x'' ''00:12'' 12,
         sample_edge ''c3'' sample_commenter ''yo'' ''00:15'' 15,
         sample_edge ''c4'' JNull ''gone'' ''00:30'' 30]) =
     Inr [sample_chat ''c1'' ''hi'' 5, sample_chat ''c3'' ''yo'' 15]"
proof (intro conjI)
  show "comprehension (\<lambda>raw_data. from_raw_data sample_clock raw_data (JStr ''00:00''))
     (filter truthy_commenter
        [sample_edge ''c1'' sample_commenter ''hi'' ''00:05'' 5,
         sample_edge ''c2'' JNull ''x'' ''00:12'' 12,
         sample_edge ''c3'' sample_commenter ''yo'' ''00:15'' 15,
         sample_edge ''c4'' JNull ''gone'' ''00:30'' 30]) =
     Inr [sample_chat ''c1'' ''hi'' 5, sample_chat ''c3'' ''yo'' 15]"
    by (simp add: truthy_commenter_def commenter_of_def from_raw_data_def
        calculate_time_difference_def sample_defs)
qed (simp_all add: mixed_page_def edges_of_sample_comments has_next_page_of_sample_comments
    commenter_of_sample_edge, simp add: sample_edge_def)

section \<open>The claims\<close>

text \<open>
  C1, window containment, as the code has it. Every record that \<^verbatim>\<open>get_part_chat\<close>
  returns has an offset of at most the end of the window, so no record beyond the end is
  ever included. The start of the window is not checked by the retriever: the records
  are at or after the start provided that every page the server delivers holds only
  records at or after the start.
\<close>

theorem window_upper_bound:
  assumes "get_part_chat post fromiso v s e w = Some (Inr result, w')"
  shows "(\<forall>c\<in>set result. offset c \<le> of_int e) \<and>
         ((\<forall>st w1 req w0 resp w2 p.
              get_video_start_time post v w = (Inr st, w1) \<and>
              post req w0 = (Inr resp, w2) \<and> read_page fromiso resp st = Inr p \<longrightarrow>
              (\<forall>c\<in>set (chats p). of_int s \<le> offset c)) \<longrightarrow>
          (\<forall>c\<in>set result. of_int s \<le> offset c))"
proof -
  define F where "F \<longleftrightarrow> (\<forall>st w1 req w0 resp w2 p.
              get_video_start_time post v w = (Inr st, w1) \<and>
              post req w0 = (Inr resp, w2) \<and> read_page fromiso resp st = Inr p \<longrightarrow>
              (\<forall>c\<in>set (chats p). of_int s \<le> offset c))"
  define good where "good res \<longleftrightarrow>
     (\<forall>c\<in>set res. offset c \<le> of_int e) \<and> (F \<longrightarrow> (\<forall>c\<in>set res. of_int s \<le> offset c))"
    for res :: "SimpleChat list"
  from assms obtain st w1 where
    st: "get_video_start_time post v w = (Inr st, w1)" and
    loop: "part_loop post fromiso v s e st (None, [], w1) = Some (Inr result, w')"
    by (auto simp: get_part_chat_def split: prod.splits sum.splits)
  from part_loop_Some [OF loop] obtain n where
    n: "passes (part_body post fromiso v s e st) n (None, [], w1) = Leave (Inr result, w')" ..
  have page: "good (res @ takeWhile (\<lambda>c. offset c \<le> of_int e) (chats p))"
    if "good res" and "fetch post fromiso v s st cur w0 = (Inr p, w2)" for res cur w0 p w2
  proof -
    from fetch_Inr [OF that(2)] obtain req w3 resp where
      pr: "post req w3 = (Inr resp, w2)" "read_page fromiso resp st = Inr p" by blast
    have lower: "\<forall>c\<in>set (chats p). of_int s \<le> offset c" if F
      using that [unfolded F_def, rule_format, of st w1 req w3 resp w2 p] st pr by simp
    have sub: "set (takeWhile (\<lambda>c. offset c \<le> of_int e) (chats p)) \<subseteq> set (chats p)"
      by (blast dest: set_takeWhileD)
    have up: "\<forall>c\<in>set (takeWhile (\<lambda>c. offset c \<le> of_int e) (chats p)). offset c \<le> of_int e"
      by (blast dest: set_takeWhileD)
    from \<open>good res\<close> lower sub up show ?thesis
      unfolding good_def by auto
  qed
  have "case fst (Inr result :: error + SimpleChat list, w') of Inl err \<Rightarrow> True | Inr res \<Rightarrow> good res"
  proof (rule passes_invariant [of "part_body post fromiso v s e st" n "(None, [], w1)"
        "(Inr result, w')" "\<lambda>(cur, res, w0). good res"
        "\<lambda>r. case fst r of Inl err \<Rightarrow> True | Inr res \<Rightarrow> good res", OF n])
    show "case (None, [], w1) of (cur, res, w0) \<Rightarrow> good res" by (simp add: good_def)
  next
    fix st1 st2
    assume I: "case st1 of (cur, res, w0) \<Rightarrow> good res"
      and b: "part_body post fromiso v s e st st1 = Again st2"
    obtain cur res w0 where st1: "st1 = (cur, res, w0)" by (cases st1) auto
    obtain r w2 where f: "fetch post fromiso v s st cur w0 = (r, w2)" by fastforce
    show "case st2 of (cur, res, w0) \<Rightarrow> good res"
    proof (cases r)
      case (Inl err)
      with f have "fetch post fromiso v s st cur w0 = (Inl err, w2)" by simp
      from part_body_error [OF this] b st1 show ?thesis by simp
    next
      case (Inr p)
      with f have f': "fetch post fromiso v s st cur w0 = (Inr p, w2)" by simp
      from I st1 have "good res" by simp
      from page [OF this f'] have g: "good (res @ takeWhile (\<lambda>c. offset c \<le> of_int e) (chats p))" .
      from b st1 have "st2 = (Some (cursor (last (chats p))), res @ chats p, w2) \<and>
          (\<forall>c\<in>set (chats p). offset c \<le> of_int e)"
        by (simp add: part_body_page [OF f'] split: if_splits)
      then have st2: "st2 = (Some (cursor (last (chats p))), res @ chats p, w2)"
        and tw: "takeWhile (\<lambda>c. offset c \<le> of_int e) (chats p) = chats p"
        by (simp_all add: takeWhile_eq_all_conv)
      from g show ?thesis unfolding tw st2 by simp
    qed
  next
    fix st1 r
    assume I: "case st1 of (cur, res, w0) \<Rightarrow> good res"
      and b: "part_body post fromiso v s e st st1 = Leave r"
    obtain cur res w0 where st1: "st1 = (cur, res, w0)" by (cases st1) auto
    obtain q w2 where f: "fetch post fromiso v s st cur w0 = (q, w2)" by fastforce
    show "case fst r of Inl (err :: error) \<Rightarrow> True | Inr res \<Rightarrow> good res"
    proof (cases q)
      case (Inl err)
      with f have "fetch post fromiso v s st cur w0 = (Inl err, w2)" by simp
      from part_body_error [OF this] b st1 show ?thesis by auto
    next
      case (Inr p)
      with f have f': "fetch post fromiso v s st cur w0 = (Inr p, w2)" by simp
      from I st1 have "good res" by simp
      from page [OF this f']
      have g: "good (res @ takeWhile (\<lambda>c. offset c \<le> of_int e) (chats p))" .
      from b st1 have "r = (Inl IndexError, w2) \<or>
          r = (Inr (res @ takeWhile (\<lambda>c. offset c \<le> of_int e) (chats p)), w2)"
        by (simp add: part_body_page [OF f'] split: if_splits)
      with g show ?thesis by auto
    qed
  qed
  then have "good result" by simp
  then show ?thesis unfolding good_def F_def .
qed

text \<open>
  C1 at a sample feed: a window from 10 to 20 seconds, one page with records at 12, 15
  and 30 seconds.
\<close>

theorem window_upper_bound_witness:
  "get_part_chat (scripted_post [Inr sample_owner, Inr sample_metadata, Inr window_page])
     sample_clock 1 10 20 0 =
     Some (Inr [sample_chat ''c1'' ''hello'' 12, sample_chat ''c2'' ''bye'' 15], 3) \<and>
   list_all (\<lambda>c. of_int 10 \<le> offset c \<and> offset c \<le> of_int 20)
     [sample_chat ''c1'' ''hello'' 12, sample_chat ''c2'' ''bye'' 15]"
proof -
  let ?post = "scripted_post [Inr sample_owner, Inr sample_metadata, Inr window_page]"
  have "part_body ?post sample_clock 1 10 20 (JStr ''00:00'') (None, [], 2) =
        Leave (Inr [sample_chat ''c1'' ''hello'' 12, sample_chat ''c2'' ''bye'' 15], 3)"
    by (simp add: part_body_def fetch_scripted_offset read_window_page sample_chat_def
        py_index_last numeral_2_eq_2 numeral_3_eq_3)
  then have "part_loop ?post sample_clock 1 10 20 (JStr ''00:00'') (None, [], 2) =
        Some (Inr [sample_chat ''c1'' ''hello'' 12, sample_chat ''c2'' ''bye'' 15], 3)"
    by (subst part_loop.simps) simp
  then have run: "get_part_chat ?post sample_clock 1 10 20 0 =
     Some (Inr [sample_chat ''c1'' ''hello'' 12, sample_chat ''c2'' ''bye'' 15], 3)"
    by (simp add: get_part_chat_def start_time_scripted)
  have feed: "\<forall>st w1 req w0 resp w2 p.
      get_video_start_time ?post 1 0 = (Inr st, w1) \<and>
      ?post req w0 = (Inr resp, w2) \<and> read_page sample_clock resp st = Inr p \<longrightarrow>
      (\<forall>c\<in>set (chats p). of_int 10 \<le> offset c)"
  proof (intro allI impI, elim conjE)
    fix st w1 req w0 resp w2 p
    assume "get_video_start_time ?post 1 0 = (Inr st, w1)"
    then have st: "st = JStr ''00:00''" by (simp add: start_time_scripted)
    assume "?post req w0 = (Inr resp, w2)"
    then have "resp = sample_owner \<or> resp = sample_metadata \<or> resp = window_page"
      by (auto dest: scripted_post_Inr)
    moreover assume "read_page sample_clock resp st = Inr p"
    ultimately show "\<forall>c\<in>set (chats p). of_int 10 \<le> offset c"
      using st by (auto simp: read_sample_owner read_sample_metadata read_window_page
          sample_chat_def)
  qed
  from window_upper_bound [OF run] feed run show ?thesis by simp
qed

text \<open>
  C1 as stated fails at the start of the window: asked for the window from 10 to 20
  seconds, the server answers the request at offset 10 with a page whose record is at 5
  seconds, and the record is returned.
\<close>

theorem window_lower_bound_counterexample:
  "get_part_chat (scripted_post [Inr sample_owner, Inr sample_metadata, Inr early_page])
     sample_clock 1 10 20 0 = Some (Inr [sample_chat ''c1'' ''hi'' 5], 3) \<and>
   \<not> (of_int 10 \<le> offset (sample_chat ''c1'' ''hi'' 5))"
proof -
  have "part_body (scripted_post [Inr sample_owner, Inr sample_metadata, Inr early_page])
          sample_clock 1 10 20 (JStr ''00:00'') (None, [], 2) =
        Leave (Inr [sample_chat ''c1'' ''hi'' 5], 3)"
    by (simp add: part_body_def fetch_scripted_offset read_early_page sample_chat_def
        py_index_last numeral_2_eq_2 numeral_3_eq_3)
  then have "part_loop (scripted_post [Inr sample_owner, Inr sample_metadata, Inr early_page])
          sample_clock 1 10 20 (JStr ''00:00'') (None, [], 2) =
        Some (Inr [sample_chat ''c1'' ''hi'' 5], 3)"
    by (subst part_loop.simps) simp
  then show ?thesis
    by (simp add: get_part_chat_def start_time_scripted sample_chat_def)
qed



text \<open>
  C3, as the code has it. Both page fetchers skip the raw entries whose commenter is
  falsy: null, and also false, zero and the empty string, list or object. Let \<open>g\<close> be
  a fetcher and \<open>req\<close> its request. When the request is answered with a response whose
  entries all carry a commenter, whose last entry reports the trailing offset, and whose
  entries with a truthy commenter convert to the records \<open>cs\<close>, the fetcher returns,
  after this one request, the page whose records are \<open>cs\<close>: the skipped entries raise
  nothing and leave no record. Conversely, the records of any page that a fetcher returns
  are those of the entries with a truthy commenter of a response to its request, in
  order. An entry with a null commenter is never one of them.
\<close>

theorem commenter_filtering:
  assumes "(g, req) =
             (get_chat_by_offset post fromiso v a_offset st, VideoCommentByOffsetReq v a_offset) \<or>
           (g, req) =
             (get_chat_by_cursor post fromiso v a_cursor st, VideoCommentByCursorReq v a_cursor)"
  shows "(post req w = (Inr resp, w') \<and> edges_of resp = Inr (JArr entries) \<and>
          entries \<noteq> [] \<and> has_next_page_of resp = Inr flag \<and>
          getpath (last entries) [''node'', ''contentOffsetSeconds''] = Inr pt \<and>
          (\<forall>i\<in>set entries. \<exists>c. commenter_of i = Inr c) \<and>
          comprehension (\<lambda>raw_data. from_raw_data fromiso raw_data st)
            (filter truthy_commenter entries) = Inr cs \<longrightarrow>
          g w = (Inr \<lparr>next_page = flag, chats = cs, part_time = pt\<rparr>, w')) \<and>
         (g w = (Inr p, w') \<longrightarrow>
          (\<exists>w0 resp0 entries0.
             post req w0 = (Inr resp0, w') \<and> edges_of resp0 = Inr (JArr entries0) \<and>
             comprehension (\<lambda>raw_data. from_raw_data fromiso raw_data st)
               (filter truthy_commenter entries0) = Inr (chats p))) \<and>
         (\<forall>i. commenter_of i = Inr JNull \<longrightarrow> \<not> truthy_commenter i) \<and>
         (\<forall>i c. commenter_of i = Inr c \<longrightarrow>
            (truthy_commenter i \<longleftrightarrow>
               c \<notin> {JNull, JBool False, JInt 0, JFloat 0, JStr [], JArr [], JObj []}))"
proof (intro conjI impI allI)
  assume h: "post req w = (Inr resp, w') \<and> edges_of resp = Inr (JArr entries) \<and>
          entries \<noteq> [] \<and> has_next_page_of resp = Inr flag \<and>
          getpath (last entries) [''node'', ''contentOffsetSeconds''] = Inr pt \<and>
          (\<forall>i\<in>set entries. \<exists>c. commenter_of i = Inr c) \<and>
          comprehension (\<lambda>raw_data. from_raw_data fromiso raw_data st)
            (filter truthy_commenter entries) = Inr cs"
  then have post: "post req w = (Inr resp, w')" by blast
  from h have "read_page fromiso resp st =
      Inr \<lparr>next_page = flag, chats = cs, part_time = pt\<rparr>"
    by (intro read_page_of_shape) blast+
  moreover from assms post have "g w = (read_page fromiso resp st, w')"
    by (auto simp: get_chat_by_offset_post get_chat_by_cursor_post)
  ultimately show "g w = (Inr \<lparr>next_page = flag, chats = cs, part_time = pt\<rparr>, w')"
    by simp
next
  assume r: "g w = (Inr p, w')"
  from assms have "\<exists>w0 resp0. post req w0 = (Inr resp0, w') \<and> read_page fromiso resp0 st = Inr p"
  proof
    assume a: "(g, req) =
      (get_chat_by_offset post fromiso v a_offset st, VideoCommentByOffsetReq v a_offset)"
    with r have "get_chat_by_offset post fromiso v a_offset st w = (Inr p, w')" by simp
    from get_chat_by_offset_Inr [OF this] a show ?thesis by simp
  next
    assume a: "(g, req) =
      (get_chat_by_cursor post fromiso v a_cursor st, VideoCommentByCursorReq v a_cursor)"
    with r have "get_chat_by_cursor post fromiso v a_cursor st w = (Inr p, w')" by simp
    from get_chat_by_cursor_Inr [OF this] a show ?thesis by simp
  qed
  then obtain w0 resp0 where
    "post req w0 = (Inr resp0, w')" "read_page fromiso resp0 st = Inr p" by blast
  with read_page_kept [of fromiso resp0 st p]
  show "\<exists>w0 resp0 entries0.
             post req w0 = (Inr resp0, w') \<and> edges_of resp0 = Inr (JArr entries0) \<and>
             comprehension (\<lambda>raw_data. from_raw_data fromiso raw_data st)
               (filter truthy_commenter entries0) = Inr (chats p)"
    by blast
next
  fix i assume "commenter_of i = Inr JNull"
  then show "\<not> truthy_commenter i" by (simp add: truthy_commenter_def)
next
  fix i c assume "commenter_of i = Inr c"
  then show "truthy_commenter i \<longleftrightarrow>
               c \<notin> {JNull, JBool False, JInt 0, JFloat 0, JStr [], JArr [], JObj []}"
    by (simp only: truthy_commenter_def sum.case truthy_iff)
qed

text \<open>
  C3 as the code has it, at a sample page of four entries, the second and the fourth
  with a null commenter: both fetchers return the records of the first and the third.
\<close>

theorem commenter_filtering_witness:
  "get_chat_by_offset (scripted_post [Inr mixed_page]) sample_clock 1 0 (JStr ''00:00'') 0 =
     (Inr \<lparr>next_page = JBool False,
           chats = [sample_chat ''c1'' ''hi'' 5, sample_chat ''c3'' ''yo'' 15],
           part_time = JInt 30\<rparr>, 1) \<and>
   get_chat_by_cursor (scripted_post [Inr mixed_page]) sample_clock 1 ''c0'' (JStr ''00:00'') 0 =
     (Inr \<lparr>next_page = JBool False,
           chats = [sample_chat ''c1'' ''hi'' 5, sample_chat ''c3'' ''yo'' 15],
           part_time = JInt 30\<rparr>, 1)"
proof
  have "scripted_post [Inr mixed_page] (VideoCommentByOffsetReq 1 0) 0 = (Inr mixed_page, 1)"
    by (simp add: scripted_post_def)
  with mixed_page_shape
    commenter_filtering [where post = "scripted_post [Inr mixed_page]" and fromiso = sample_clock
      and v = 1 and a_offset = 0 and st = "JStr ''00:00''" and w = 0 and w' = 1
      and resp = mixed_page, OF disjI1 [OF refl], THEN conjunct1, rule_format]
  show "get_chat_by_offset (scripted_post [Inr mixed_page]) sample_clock 1 0 (JStr ''00:00'') 0 =
     (Inr \<lparr>next_page = JBool False,
           chats = [sample_chat ''c1'' ''hi'' 5, sample_chat ''c3'' ''yo'' 15],
           part_time = JInt 30\<rparr>, 1)"
    by blast
next
  have "scripted_post [Inr mixed_page] (VideoCommentByCursorReq 1 ''c0'') 0 = (Inr mixed_page, 1)"
    by (simp add: scripted_post_def)
  with mixed_page_shape
    commenter_filtering [where post = "scripted_post [Inr mixed_page]" and fromiso = sample_clock
      and v = 1 and a_cursor = "''c0''" and st = "JStr ''00:00''" and w = 0 and w' = 1
      and resp = mixed_page, OF disjI2 [OF refl], THEN conjunct1, rule_format]
  show "get_chat_by_cursor (scripted_post [Inr mixed_page]) sample_clock 1 ''c0''
      (JStr ''00:00'') 0 =
     (Inr \<lparr>next_page = JBool False,
           chats = [sample_chat ''c1'' ''hi'' 5, sample_chat ''c3'' ''yo'' 15],
           part_time = JInt 30\<rparr>, 1)"
    by blast
qed

text \<open>
  C3 as stated fails where a commenter is falsy without being null: of the two entries
  of the sample page, neither has a null commenter, the second has the empty object, and
  the page that is returned holds the record of the first only.
\<close>

theorem empty_commenter_skipped_counterexample:
  "get_chat_by_offset (scripted_post [Inr falsy_page]) sample_clock 1 0 (JStr ''00:00'') 0 =
     (Inr \<lparr>next_page = JBool False, chats = [sample_chat ''c1'' ''hi'' 5],
           part_time = JInt 12\<rparr>, 1) \<and>
   edges_of falsy_page =
     Inr (JArr [sample_edge ''c1'' sample_commenter ''hi'' ''00:05'' 5,
                sample_edge ''c2'' (JObj []) ''x'' ''00:12'' 12]) \<and>
   filter (\<lambda>i. commenter_of i \<noteq> Inr JNull)
     [sample_edge ''c1'' sample_commenter ''hi'' ''00:05'' 5,
      sample_edge ''c2'' (JObj []) ''x'' ''00:12'' 12] =
     [sample_edge ''c1'' sample_commenter ''hi'' ''00:05'' 5,
      sample_edge ''c2'' (JObj []) ''x'' ''00:12'' 12]"
proof (intro conjI)
  have "read_page sample_clock falsy_page (JStr ''00:00'') =
      Inr \<lparr>next_page = JBool False, chats = [sample_chat ''c1'' ''hi'' 5],
           part_time = JInt 12\<rparr>"
    by (simp add: falsy_page_def read_defs sample_defs)
  then show "get_chat_by_offset (scripted_post [Inr falsy_page]) sample_clock 1 0
      (JStr ''00:00'') 0 =
     (Inr \<lparr>next_page = JBool False, chats = [sample_chat ''c1'' ''hi'' 5],
           part_time = JInt 12\<rparr>, 1)"
    by (simp add: get_chat_by_offset_scripted)
qed (simp_all add: falsy_page_def edges_of_sample_comments commenter_of_sample_edge
    sample_commenter_def)

text \<open>
  C4, the retry policy of a page fetch. Let \<open>f\<close> be one attempt of a fetcher, \<open>g\<close> the
  decorated fetcher and \<open>req\<close> its request. An attempt raises what the request raises,
  and otherwise returns or raises what reading the response gives, which is never a
  timeout: so an attempt times out only when its request does. A first attempt that does
  not time out is the outcome of the call, with no retry: this is so for every failure
  other than a timeout. After \<open>j < 5\<close> timeouts in a row, an attempt that does not time
  out is the outcome of the call. When five attempts in a row time out, the call raises
  RetryError in the world after exactly five attempts.
\<close>

theorem page_fetch_retry:
  assumes "(f, g, req) =
             (get_chat_by_offset_attempt post fromiso v a_offset st,
              get_chat_by_offset post fromiso v a_offset st,
              VideoCommentByOffsetReq v a_offset) \<or>
           (f, g, req) =
             (get_chat_by_cursor_attempt post fromiso v a_cursor st,
              get_chat_by_cursor post fromiso v a_cursor st,
              VideoCommentByCursorReq v a_cursor)"
  shows "(\<forall>e w1. post req w = (Inl e, w1) \<longrightarrow> f w = (Inl e, w1)) \<and>
         (\<forall>resp w1. post req w = (Inr resp, w1) \<longrightarrow>
            f w = (read_page fromiso resp st, w1) \<and>
            read_page fromiso resp st \<noteq> Inl TimeoutException) \<and>
         (fst (f w) \<noteq> Inl TimeoutException \<longrightarrow> g w = f w) \<and>
         (\<forall>j<5. (\<forall>i<j. fst (f (after_attempts f i w)) = Inl TimeoutException) \<and>
            fst (f (after_attempts f j w)) \<noteq> Inl TimeoutException \<longrightarrow>
            g w = f (after_attempts f j w)) \<and>
         ((\<forall>i<5. fst (f (after_attempts f i w)) = Inl TimeoutException) \<longrightarrow>
            g w = (Inl RetryError, after_attempts f 5 w))"
proof -
  from assms have g: "g = retry 5 1 f"
    by (auto simp: get_chat_by_offset_def get_chat_by_cursor_def)
  from assms have a: "\<forall>e w1. post req w = (Inl e, w1) \<longrightarrow> f w = (Inl e, w1)"
    by (auto simp: get_chat_by_offset_attempt_def get_chat_by_cursor_attempt_def)
  from assms have b: "\<forall>resp w1. post req w = (Inr resp, w1) \<longrightarrow>
            f w = (read_page fromiso resp st, w1) \<and>
            read_page fromiso resp st \<noteq> Inl TimeoutException"
    by (auto simp: get_chat_by_offset_attempt_def get_chat_by_cursor_attempt_def
        read_page_no_timeout)
  from a b retry_five [of f w] show ?thesis unfolding g by (intro conjI) simp_all
qed

text \<open>
  C4 at four sample sessions, which count their requests: five timeouts (RetryError after
  five requests), four timeouts and then a page (the page, after five requests), a
  network error (raised after one request), a response without the comment fields
  (KeyError after one request).
\<close>

theorem page_fetch_retry_witness:
  "get_chat_by_offset
     (scripted_post (replicate 5 (Inl TimeoutException) @ [Inr early_page]))
     sample_clock 1 0 (JStr ''00:00'') 0 = (Inl RetryError, 5) \<and>
   get_chat_by_cursor
     (scripted_post (replicate 4 (Inl TimeoutException) @ [Inr early_page]))
     sample_clock 1 ''c0'' (JStr ''00:00'') 0 =
     (Inr \<lparr>next_page = JBool False, chats = [sample_chat ''c1'' ''hi'' 5],
           part_time = JInt 5\<rparr>, 5) \<and>
   get_chat_by_offset (scripted_post [Inl NetworkError, Inr early_page])
     sample_clock 1 0 (JStr ''00:00'') 0 = (Inl NetworkError, 1) \<and>
   get_chat_by_offset (scripted_post [Inr sample_owner, Inr early_page])
     sample_clock 1 0 (JStr ''00:00'') 0 = (Inl KeyError, 1)"
proof (intro conjI)
  let ?st = "JStr ''00:00''"
  let ?s5 = "replicate 5 (Inl TimeoutException) @ [Inr early_page]"
  let ?f5 = "get_chat_by_offset_attempt (scripted_post ?s5) sample_clock 1 0 ?st"
  have w5: "after_attempts ?f5 i 0 = i" for i
    by (simp add: after_attempts_counting offset_attempt_scripted)
  have "\<forall>i<5. fst (?f5 (after_attempts ?f5 i 0)) = Inl TimeoutException"
    by (simp add: w5 offset_attempt_scripted nth_append)
  with page_fetch_retry [where post = "scripted_post ?s5" and fromiso = sample_clock and v = 1
      and a_offset = 0 and st = ?st and w = 0, OF disjI1 [OF refl]]
  show "get_chat_by_offset (scripted_post ?s5) sample_clock 1 0 ?st 0 = (Inl RetryError, 5)"
    by (simp add: w5)
next
  let ?st = "JStr ''00:00''"
  let ?s4 = "replicate 4 (Inl TimeoutException) @ [Inr early_page]"
  let ?f4 = "get_chat_by_cursor_attempt (scripted_post ?s4) sample_clock 1 ''c0'' ?st"
  have w4: "after_attempts ?f4 i 0 = i" for i
    by (simp add: after_attempts_counting cursor_attempt_scripted)
  have "(\<forall>i<4. fst (?f4 (after_attempts ?f4 i 0)) = Inl TimeoutException) \<and>
        fst (?f4 (after_attempts ?f4 4 0)) \<noteq> Inl TimeoutException"
    by (simp add: w4 cursor_attempt_scripted nth_append read_early_page)
  with page_fetch_retry [where post = "scripted_post ?s4" and fromiso = sample_clock and v = 1
      and a_cursor = "''c0''" and st = ?st and w = 0, OF disjI2 [OF refl]]
  have "get_chat_by_cursor (scripted_post ?s4) sample_clock 1 ''c0'' ?st 0 =
          ?f4 (after_attempts ?f4 4 0)"
    by simp
  then show "get_chat_by_cursor (scripted_post ?s4) sample_clock 1 ''c0'' ?st 0 =
     (Inr \<lparr>next_page = JBool False, chats = [sample_chat ''c1'' ''hi'' 5],
           part_time = JInt 5\<rparr>, 5)"
    by (simp add: w4 cursor_attempt_scripted nth_append read_early_page)
next
  let ?st = "JStr ''00:00''"
  let ?s = "[Inl NetworkError, Inr early_page]"
  let ?f = "get_chat_by_offset_attempt (scripted_post ?s) sample_clock 1 0 ?st"
  have "fst (?f 0) \<noteq> Inl TimeoutException"
    by (simp add: offset_attempt_scripted)
  with page_fetch_retry [where post = "scripted_post ?s" and fromiso = sample_clock and v = 1
      and a_offset = 0 and st = ?st and w = 0, OF disjI1 [OF refl]]
  have "get_chat_by_offset (scripted_post ?s) sample_clock 1 0 ?st 0 = ?f 0" by simp
  then show "get_chat_by_offset (scripted_post ?s) sample_clock 1 0 ?st 0 = (Inl NetworkError, 1)"
    by (simp add: offset_attempt_scripted)
next
  let ?st = "JStr ''00:00''"
  let ?s = "[Inr sample_owner, Inr early_page]"
  let ?f = "get_chat_by_offset_attempt (scripted_post ?s) sample_clock 1 0 ?st"
  have "fst (?f 0) \<noteq> Inl TimeoutException"
    by (simp add: offset_attempt_scripted read_sample_owner)
  with page_fetch_retry [where post = "scripted_post ?s" and fromiso = sample_clock and v = 1
      and a_offset = 0 and st = ?st and w = 0, OF disjI1 [OF refl]]
  have "get_chat_by_offset (scripted_post ?s) sample_clock 1 0 ?st 0 = ?f 0" by simp
  then show "get_chat_by_offset (scripted_post ?s) sample_clock 1 0 ?st 0 = (Inl KeyError, 1)"
    by (simp add: offset_attempt_scripted read_sample_owner)
qed

text \<open>
  C5. For any iteration order of the set, \<^verbatim>\<open>export\<close> writes one file whose content
  is a JSON array of objects with the fields \<^verbatim>\<open>displayName\<close>, \<^verbatim>\<open>text\<close> and
  \<^verbatim>\<open>offset\<close>. The objects are those of the list \<open>final_chats\<close>, which holds exactly
  the records mapped to their display name, their text and their offset minus the start
  of the window, each once, sorted ascending by offset. \<^verbatim>\<open>main\<close> calls \<^verbatim>\<open>export\<close>
  only when the search has returned a match: with no match it returns normally and
  leaves the files as they were, and so it does, raising, when the search raises.
\<close>

theorem export_sorted_deduplicated:
  assumes "set_iteration set_iter"
  shows "export set_iter uuid_hex matched s fs =
           fs(''export_'' @ take 6 uuid_hex @ ''.json'' \<mapsto>
              JArr (map (\<lambda>x. JObj [(''displayName'', JStr (x_displayName x)),
                                   (''text'', JStr (x_text x)),
                                   (''offset'', JFloat (x_offset x))])
                     (final_chats set_iter matched s))) \<and>
         set (final_chats set_iter matched s) =
           (\<lambda>c. \<lparr>x_displayName = displayName c, x_text = chat_text c,
                  x_offset = offset c - of_int s\<rparr>) ` set matched \<and>
         distinct (final_chats set_iter matched s) \<and>
         sorted (map x_offset (final_chats set_iter matched s)) \<and>
         (get_sec py_int start_time = Inr s \<and> get_sec py_int end_time = Inr e \<and>
          get_part_chat post fromiso v s e w = Some (Inr a_chats, w') \<longrightarrow>
          main post fromiso py_int set_iter uuid_hex v start_time end_time kws (w, fs) =
            (case search_keywords a_chats kws s of
               Inl err \<Rightarrow> Some (Inl err, w', fs)
             | Inr found \<Rightarrow>
                 Some (Inr (), w',
                   if found = [] then fs else export set_iter uuid_hex found s fs)))"
proof (intro conjI impI)
  show "export set_iter uuid_hex matched s fs =
           fs(''export_'' @ take 6 uuid_hex @ ''.json'' \<mapsto>
              JArr (map (\<lambda>x. JObj [(''displayName'', JStr (x_displayName x)),
                                   (''text'', JStr (x_text x)),
                                   (''offset'', JFloat (x_offset x))])
                     (final_chats set_iter matched s)))"
    by (simp add: export_def model_dump_def [abs_def])
  show "set (final_chats set_iter matched s) =
           (\<lambda>c. \<lparr>x_displayName = displayName c, x_text = chat_text c,
                  x_offset = offset c - of_int s\<rparr>) ` set matched"
    using set_final_chats [OF assms, of matched s] by (simp add: from_simple_chat_def)
  show "distinct (final_chats set_iter matched s)"
    by (rule distinct_final_chats [OF assms])
  show "sorted (map x_offset (final_chats set_iter matched s))"
    by (rule sorted_final_chats)
next
  assume "get_sec py_int start_time = Inr s \<and> get_sec py_int end_time = Inr e \<and>
          get_part_chat post fromiso v s e w = Some (Inr a_chats, w')"
  then have a: "get_sec py_int start_time = Inr s" and b: "get_sec py_int end_time = Inr e"
    and c: "get_part_chat post fromiso v s e w = Some (Inr a_chats, w')"
    by blast+
  show "main post fromiso py_int set_iter uuid_hex v start_time end_time kws (w, fs) =
            (case search_keywords a_chats kws s of
               Inl err \<Rightarrow> Some (Inl err, w', fs)
             | Inr found \<Rightarrow>
                 Some (Inr (), w',
                   if found = [] then fs else export set_iter uuid_hex found s fs))"
    by (rule main_after_retrieval [OF a b c])
qed

text \<open>
  C5 at a sample: three matched records, two of them equal, exported from a window
  starting at 10 seconds; and a run of \<^verbatim>\<open>main\<close> whose keyword matches nothing.
\<close>

theorem export_sorted_deduplicated_witness:
  "export remdups ''0123456789abcdef''
     [sample_chat ''c2'' ''bye'' 15, sample_chat ''c1'' ''hello'' 12,
      sample_chat ''c2'' ''bye'' 15] 10 Map.empty =
     [''export_012345.json'' \<mapsto>
        JArr [JObj [(''displayName'', JStr ''Ann''), (''text'', JStr ''hello''),
                    (''offset'', JFloat 2)],
              JObj [(''displayName'', JStr ''Ann''), (''text'', JStr ''bye''),
                    (''offset'', JFloat 5)]]] \<and>
   main (scripted_post [Inr sample_owner, Inr sample_metadata, Inr window_page])
     sample_clock sample_int remdups ''0123456789abcdef'' 1 ''00:00:10'' ''00:00:20''
     [''zzz''] (0, Map.empty) = Some (Inr (), 3, Map.empty)"
proof
  note export_sorted_deduplicated [OF set_iteration_remdups, of "''0123456789abcdef''"
      "[sample_chat ''c2'' ''bye'' 15, sample_chat ''c1'' ''hello'' 12,
        sample_chat ''c2'' ''bye'' 15]" 10 Map.empty, THEN conjunct1]
  then show "export remdups ''0123456789abcdef''
     [sample_chat ''c2'' ''bye'' 15, sample_chat ''c1'' ''hello'' 12,
      sample_chat ''c2'' ''bye'' 15] 10 Map.empty =
     [''export_012345.json'' \<mapsto>
        JArr [JObj [(''displayName'', JStr ''Ann''), (''text'', JStr ''hello''),
                    (''offset'', JFloat 2)],
              JObj [(''displayName'', JStr ''Ann''), (''text'', JStr ''bye''),
                    (''offset'', JFloat 5)]]]"
    by (simp add: final_chats_sample)
next
  have "search_keywords [sample_chat ''c1'' ''hello'' 12, sample_chat ''c2'' ''bye'' 15]
      [''zzz''] 10 = Inr []"
    by (simp add: search_keywords_def sample_chat_def)
  with export_sorted_deduplicated [OF set_iteration_remdups,
      where py_int = sample_int and start_time = "''00:00:10''" and end_time = "''00:00:20''"
      and s = 10 and e = 20 and fromiso = sample_clock and v = 1 and w = 0
      and post = "scripted_post [Inr sample_owner, Inr sample_metadata, Inr window_page]"
      and a_chats = "[sample_chat ''c1'' ''hello'' 12, sample_chat ''c2'' ''bye'' 15]"
      and w' = 3 and kws = "[''zzz'']" and uuid_hex = "''0123456789abcdef''"
      and fs = Map.empty]
    get_sec_sample get_part_chat_window_page
  show "main (scripted_post [Inr sample_owner, Inr sample_metadata, Inr window_page])
     sample_clock sample_int remdups ''0123456789abcdef'' 1 ''00:00:10'' ''00:00:20''
     [''zzz''] (0, Map.empty) = Some (Inr (), 3, Map.empty)"
    by simp
qed

text \<open>
  C6 as the code has it. Two runs of \<^verbatim>\<open>export\<close> on the same matched records and the
  same start of the window, each with its own iteration order of the set, write the same
  records, each sorted ascending by offset. They write the same content when no two
  different exported records have the same offset, and when the iteration order is the
  same (as it is within one interpreter process). Different records with the same offset
  keep the order in which the set yields them, which differs between processes.
\<close>

theorem export_equal_up_to_ties:
  assumes "set_iteration it1" and "set_iteration it2"
  shows "mset (final_chats it1 a_chats s) = mset (final_chats it2 a_chats s) \<and>
         sorted (map x_offset (final_chats it1 a_chats s)) \<and>
         sorted (map x_offset (final_chats it2 a_chats s)) \<and>
         (inj_on x_offset (set (final_chats it1 a_chats s)) \<longrightarrow>
            export it1 uuid_hex a_chats s fs = export it2 uuid_hex a_chats s fs) \<and>
         (it1 = it2 \<longrightarrow> export it1 uuid_hex a_chats s fs = export it2 uuid_hex a_chats s fs)"
proof (intro conjI impI)
  have d: "distinct (final_chats it1 a_chats s)" "distinct (final_chats it2 a_chats s)"
    using assms by (simp_all add: distinct_final_chats)
  have e: "set (final_chats it1 a_chats s) = set (final_chats it2 a_chats s)"
    using assms by (simp add: set_final_chats)
  from d e show "mset (final_chats it1 a_chats s) = mset (final_chats it2 a_chats s)"
    by (simp add: set_eq_iff_mset_eq_distinct)
  show "sorted (map x_offset (final_chats it1 a_chats s))"
    and "sorted (map x_offset (final_chats it2 a_chats s))"
    by (rule sorted_final_chats)+
  show "export it1 uuid_hex a_chats s fs = export it2 uuid_hex a_chats s fs"
    if "inj_on x_offset (set (final_chats it1 a_chats s))"
  proof -
    have "final_chats it1 a_chats s = final_chats it2 a_chats s"
      by (rule sorted_key_unique [OF sorted_final_chats sorted_final_chats d e that])
    then show ?thesis by (simp add: export_def)
  qed
  show "export it1 uuid_hex a_chats s fs = export it2 uuid_hex a_chats s fs" if "it1 = it2"
    using that by simp
qed

text \<open>
  C6 as the code has it, at a sample whose exported records have different offsets: two
  iteration orders give the same file.
\<close>

theorem export_equal_up_to_ties_witness:
  "export remdups ''0123456789abcdef''
     [sample_chat ''c2'' ''bye'' 15, sample_chat ''c1'' ''hello'' 12,
      sample_chat ''c2'' ''bye'' 15] 10 Map.empty =
   export (\<lambda>xs. rev (remdups xs)) ''0123456789abcdef''
     [sample_chat ''c2'' ''bye'' 15, sample_chat ''c1'' ''hello'' 12,
      sample_chat ''c2'' ''bye'' 15] 10 Map.empty"
proof -
  have "inj_on x_offset (set (final_chats remdups
     [sample_chat ''c2'' ''bye'' 15, sample_chat ''c1'' ''hello'' 12,
      sample_chat ''c2'' ''bye'' 15] 10))"
    by (simp add: final_chats_sample)
  with export_equal_up_to_ties [OF set_iteration_remdups set_iteration_rev_remdups,
      of "[sample_chat ''c2'' ''bye'' 15, sample_chat ''c1'' ''hello'' 12,
      sample_chat ''c2'' ''bye'' 15]" 10 "''0123456789abcdef''" Map.empty]
  show ?thesis by blast
qed

text \<open>
  C6 as stated fails when two different records have the same offset: for two matched
  records at 12 seconds with different texts, one iteration order of the set writes
  them in one order and the reversed iteration order writes them in the other.
\<close>

theorem export_order_of_ties_counterexample:
  "set_iteration (remdups :: ExportChat list \<Rightarrow> ExportChat list) \<and>
   set_iteration (\<lambda>xs :: ExportChat list. rev (remdups xs)) \<and>
   export remdups ''0123456789abcdef''
     [sample_chat ''c1'' ''hello'' 12, sample_chat ''c2'' ''bye'' 12] 10 Map.empty
     ''export_012345.json'' =
     Some (JArr [JObj [(''displayName'', JStr ''Ann''), (''text'', JStr ''hello''),
                       (''offset'', JFloat 2)],
                 JObj [(''displayName'', JStr ''Ann''), (''text'', JStr ''bye''),
                       (''offset'', JFloat 2)]]) \<and>
   export (\<lambda>xs. rev (remdups xs)) ''0123456789abcdef''
     [sample_chat ''c1'' ''hello'' 12, sample_chat ''c2'' ''bye'' 12] 10 Map.empty
     ''export_012345.json'' =
     Some (JArr [JObj [(''displayName'', JStr ''Ann''), (''text'', JStr ''bye''),
                       (''offset'', JFloat 2)],
                 JObj [(''displayName'', JStr ''Ann''), (''text'', JStr ''hello''),
                       (''offset'', JFloat 2)]]) \<and>
   export remdups ''0123456789abcdef''
     [sample_chat ''c1'' ''hello'' 12, sample_chat ''c2'' ''bye'' 12] 10 Map.empty \<noteq>
   export (\<lambda>xs. rev (remdups xs)) ''0123456789abcdef''
     [sample_chat ''c1'' ''hello'' 12, sample_chat ''c2'' ''bye'' 12] 10 Map.empty"
proof -
  let ?cs = "[sample_chat ''c1'' ''hello'' 12, sample_chat ''c2'' ''bye'' 12]"
  have a: "export remdups ''0123456789abcdef'' ?cs 10 Map.empty ''export_012345.json'' =
     Some (JArr [JObj [(''displayName'', JStr ''Ann''), (''text'', JStr ''hello''),
                       (''offset'', JFloat 2)],
                 JObj [(''displayName'', JStr ''Ann''), (''text'', JStr ''bye''),
                       (''offset'', JFloat 2)]])"
    by (simp add: export_def final_chats_tie model_dump_def)
  have b: "export (\<lambda>xs. rev (remdups xs)) ''0123456789abcdef'' ?cs 10 Map.empty
     ''export_012345.json'' =
     Some (JArr [JObj [(''displayName'', JStr ''Ann''), (''text'', JStr ''bye''),
                       (''offset'', JFloat 2)],
                 JObj [(''displayName'', JStr ''Ann''), (''text'', JStr ''hello''),
                       (''offset'', JFloat 2)]])"
    by (simp add: export_def final_chats_tie model_dump_def)
  have "export remdups ''0123456789abcdef'' ?cs 10 Map.empty \<noteq>
      export (\<lambda>xs. rev (remdups xs)) ''0123456789abcdef'' ?cs 10 Map.empty"
  proof
    assume "export remdups ''0123456789abcdef'' ?cs 10 Map.empty =
      export (\<lambda>xs. rev (remdups xs)) ''0123456789abcdef'' ?cs 10 Map.empty"
    then have "export remdups ''0123456789abcdef'' ?cs 10 Map.empty ''export_012345.json'' =
      export (\<lambda>xs. rev (remdups xs)) ''0123456789abcdef'' ?cs 10 Map.empty
        ''export_012345.json''"
      by (rule arg_cong)
    then show False unfolding a b by simp
  qed
  with a b show ?thesis
    by (simp only: set_iteration_remdups set_iteration_rev_remdups simp_thms)
qed

text \<open>
  C7, as the code has it. For each record in order and each keyword of the list that
  occurs, as a contiguous run of the same characters, in the display name or in the text
  of the record, \<^verbatim>\<open>search_keywords\<close> first builds the duration of the log line from
  the offset of the record minus \<open>start_seconds\<close> and then appends one copy of the
  record. If some record that matches a keyword has a duration beyond the range of
  \<^verbatim>\<open>timedelta\<close>, the call raises OverflowError and returns nothing. Otherwise it
  returns the copies: a record is in the result as many times as it is in the input,
  times the number of keywords it matches, once for a keyword that matches through both
  fields and not at all when no keyword matches. This is the case whenever every offset
  is within 999999999 days (86399999913600 seconds) of \<open>start_seconds\<close>.
\<close>

theorem search_keywords_once_per_keyword:
  "search_keywords a_chats kws s =
     (if \<exists>chat\<in>set a_chats.
           (\<exists>keyword\<in>set kws.
              (\<exists>p q. displayName chat = p @ keyword @ q) \<or>
              (\<exists>p q. chat_text chat = p @ keyword @ q)) \<and>
           timedelta (offset chat - of_int s) = Inl OverflowError
      then Inl OverflowError
      else Inr (concat (map (\<lambda>chat. replicate
        (length (filter (\<lambda>keyword.
           (\<exists>p q. displayName chat = p @ keyword @ q) \<or>
           (\<exists>p q. chat_text chat = p @ keyword @ q)) kws)) chat) a_chats))) \<and>
   (search_keywords a_chats kws s = Inr matched \<longrightarrow>
      count_list matched c =
        count_list a_chats c *
          length (filter (\<lambda>keyword.
             (\<exists>p q. displayName c = p @ keyword @ q) \<or>
             (\<exists>p q. chat_text c = p @ keyword @ q)) kws)) \<and>
   ((\<forall>chat\<in>set a_chats. \<bar>offset chat - of_int s\<bar> \<le> 86399999913600) \<longrightarrow>
      search_keywords a_chats kws s =
        Inr (concat (map (\<lambda>chat. replicate
          (length (filter (\<lambda>keyword.
             (\<exists>p q. displayName chat = p @ keyword @ q) \<or>
             (\<exists>p q. chat_text chat = p @ keyword @ q)) kws)) chat) a_chats)))"
proof -
  let ?n = "\<lambda>chat. length (filter (\<lambda>keyword.
           (\<exists>p q. displayName chat = p @ keyword @ q) \<or>
           (\<exists>p q. chat_text chat = p @ keyword @ q)) kws)"
  have eq: "search_keywords a_chats kws s =
     (if \<exists>chat\<in>set a_chats.
           (\<exists>keyword\<in>set kws.
              (\<exists>p q. displayName chat = p @ keyword @ q) \<or>
              (\<exists>p q. chat_text chat = p @ keyword @ q)) \<and>
           timedelta (offset chat - of_int s) = Inl OverflowError
      then Inl OverflowError
      else Inr (concat (map (\<lambda>chat. replicate (?n chat) chat) a_chats)))"
    by (simp add: search_keywords_def chat_loop_eq py_in_iff)
  have cnt: "count_list matched c = count_list a_chats c * ?n c"
    if "search_keywords a_chats kws s = Inr matched"
  proof -
    from that eq have "matched = concat (map (\<lambda>chat. replicate (?n chat) chat) a_chats)"
      by (simp split: if_splits)
    then show ?thesis
      by (simp only: count_list_concat_replicate [where f = ?n])
  qed
  have rng: "search_keywords a_chats kws s =
      Inr (concat (map (\<lambda>chat. replicate (?n chat) chat) a_chats))"
    if "\<forall>chat\<in>set a_chats. \<bar>offset chat - of_int s\<bar> \<le> 86399999913600"
  proof -
    from that have "\<forall>chat\<in>set a_chats. timedelta (offset chat - of_int s) \<noteq> Inl OverflowError"
      using timedelta_in_range by auto
    then have "\<not> (\<exists>chat\<in>set a_chats.
           (\<exists>keyword\<in>set kws.
              (\<exists>p q. displayName chat = p @ keyword @ q) \<or>
              (\<exists>p q. chat_text chat = p @ keyword @ q)) \<and>
           timedelta (offset chat - of_int s) = Inl OverflowError)"
      by blast
    with eq show ?thesis by (simp only: if_False)
  qed
  from eq cnt rng show ?thesis by (intro conjI impI)
qed

text \<open>
  C7 as the code has it, at a sample: the first record matches three of the four
  keywords (one of them through its display name), the second matches one keyword
  through both fields, the third matches none; the keyword in lower case does not match
  the display name.
\<close>

theorem search_keywords_once_per_keyword_witness:
  "search_keywords
     [sample_chat ''c1'' ''hello'' 12, sample_chat ''c2'' ''Ann is here'' 15,
      (sample_chat ''c3'' ''bye'' 30)\<lparr>displayName := ''Bob''\<rparr>]
     [''hello'', ''Ann'', ''ann'', ''lo''] 10 =
     Inr [sample_chat ''c1'' ''hello'' 12, sample_chat ''c1'' ''hello'' 12,
          sample_chat ''c1'' ''hello'' 12, sample_chat ''c2'' ''Ann is here'' 15]"
proof -
  let ?cs = "[sample_chat ''c1'' ''hello'' 12, sample_chat ''c2'' ''Ann is here'' 15,
      (sample_chat ''c3'' ''bye'' 30)\<lparr>displayName := ''Bob''\<rparr>]"
  have "\<forall>chat\<in>set ?cs. \<bar>offset chat - of_int 10\<bar> \<le> 86399999913600"
    by (simp add: sample_chat_def)
  with search_keywords_once_per_keyword [of ?cs "[''hello'', ''Ann'', ''ann'', ''lo'']" 10]
  have "search_keywords ?cs [''hello'', ''Ann'', ''ann'', ''lo''] 10 =
        Inr (concat (map (\<lambda>chat. replicate
          (length (filter (\<lambda>keyword.
             (\<exists>p q. displayName chat = p @ keyword @ q) \<or>
             (\<exists>p q. chat_text chat = p @ keyword @ q)) [''hello'', ''Ann'', ''ann'', ''lo''])) chat) ?cs))"
    by blast
  then show ?thesis
    by (simp add: py_in_iff [symmetric] sample_chat_def)
qed

text \<open>
  C7 as stated fails for a record that matches while its offset is a thousand million
  days before \<open>start_seconds\<close>: the log line raises OverflowError, and no list is
  returned.
\<close>

theorem search_keywords_log_overflow_counterexample:
  "search_keywords [sample_chat ''c1'' ''hello'' 12] [''hello''] 86400000000012 =
     Inl OverflowError"
  by (simp add: search_keywords_def sample_chat_def timedelta_def py_round_def Let_def)

text \<open>
  C8, termination, as the code has it. \<^verbatim>\<open>get_part_chat\<close> returns or raises whenever
  some fetch of its run delivers a page that reports no further pages or holds a record
  beyond the end of the window (a fetch that raises ends the run as well).
  \<^verbatim>\<open>get_all_chat\<close> returns or raises whenever some fetch of its run delivers a page that
  reports no further pages: it has no window, and a record beyond any bound does not end
  it.
\<close>

theorem retrieval_loops_terminate:
  "((\<forall>st w1. get_video_start_time post v w = (Inr st, w1) \<longrightarrow>
       (\<exists>n. part_page_closes post fromiso v s e st (None, [], w1) n)) \<longrightarrow>
    (\<exists>r. get_part_chat post fromiso v s e w = Some r)) \<and>
   ((\<forall>st w1 len w2. get_video_start_time post v w = (Inr st, w1) \<and>
       get_video_length post v w1 = (Inr len, w2) \<longrightarrow>
       (\<exists>n. all_page_ends post fromiso v st (None, [], w2) n)) \<longrightarrow>
    (\<exists>r. get_all_chat post fromiso v w = Some r))"
proof (intro conjI impI)
  assume H: "\<forall>st w1. get_video_start_time post v w = (Inr st, w1) \<longrightarrow>
       (\<exists>n. part_page_closes post fromiso v s e st (None, [], w1) n)"
  obtain q w1 where g: "get_video_start_time post v w = (q, w1)" by fastforce
  show "\<exists>r. get_part_chat post fromiso v s e w = Some r"
  proof (cases q)
    case (Inl err)
    with g show ?thesis by (simp add: get_part_chat_def)
  next
    case (Inr st)
    with g H obtain n where "part_page_closes post fromiso v s e st (None, [], w1) n" by blast
    from part_loop_leaves [OF this] obtain r where
      "passes (part_body post fromiso v s e st) (Suc n) (None, [], w1) = Leave r" ..
    then have "part_loop post fromiso v s e st (None, [], w1) = Some r"
      by (rule part_loop_passes)
    with g Inr show ?thesis by (simp add: get_part_chat_def)
  qed
next
  assume H: "\<forall>st w1 len w2. get_video_start_time post v w = (Inr st, w1) \<and>
       get_video_length post v w1 = (Inr len, w2) \<longrightarrow>
       (\<exists>n. all_page_ends post fromiso v st (None, [], w2) n)"
  obtain q w1 where g: "get_video_start_time post v w = (q, w1)" by fastforce
  obtain q' w2 where l: "get_video_length post v w1 = (q', w2)" by fastforce
  show "\<exists>r. get_all_chat post fromiso v w = Some r"
  proof (cases q)
    case (Inl err)
    with g show ?thesis by (simp add: get_all_chat_def)
  next
    case st: (Inr st)
    show ?thesis
    proof (cases q')
      case (Inl err)
      with g l st show ?thesis by (simp add: get_all_chat_def)
    next
      case (Inr len)
      with g l st H obtain n where "all_page_ends post fromiso v st (None, [], w2) n" by blast
      from all_loop_leaves [OF this] obtain r where
        "passes (all_body post fromiso v st) (Suc n) (None, [], w2) = Leave r" ..
      then have "all_loop post fromiso v st (None, [], w2) = Some r"
        by (rule all_loop_passes)
      with g l st Inr show ?thesis by (simp add: get_all_chat_def)
    qed
  qed
qed

text \<open>
  C8 as the code has it, at two sample feeds: one that answers every page request with a
  record at 30 seconds and \<^verbatim>\<open>hasNextPage\<close> true, given to \<^verbatim>\<open>get_part_chat\<close> with a
  window ending at 20 seconds, and one whose only page reports no further pages, given
  to \<^verbatim>\<open>get_all_chat\<close>.
\<close>

theorem retrieval_loops_terminate_witness:
  "(\<exists>r. get_part_chat (endless_post far_page) sample_clock 1 10 20 0 = Some r) \<and>
   (\<exists>r. get_all_chat
      (scripted_post [Inr sample_owner, Inr sample_metadata, Inr sample_owner,
         Inr sample_metadata, Inr early_page])
      sample_clock 1 0 = Some r)"
proof
  have "\<forall>st w1. get_video_start_time (endless_post far_page) 1 0 = (Inr st, w1) \<longrightarrow>
       (\<exists>n. part_page_closes (endless_post far_page) sample_clock 1 10 20 st (None, [], w1) n)"
  proof (intro allI impI)
    fix st w1
    assume "get_video_start_time (endless_post far_page) 1 0 = (Inr st, w1)"
    then have "st = JStr ''00:00''" by (simp add: metadata_endless)
    then have "part_page_closes (endless_post far_page) sample_clock 1 10 20 st (None, [], w1) 0"
      by (auto simp: part_page_closes_def fetch_endless read_far_page page_closes_def
          sample_chat_def)
    then show "\<exists>n. part_page_closes (endless_post far_page) sample_clock 1 10 20 st
        (None, [], w1) n" ..
  qed
  with retrieval_loops_terminate [where post = "endless_post far_page" and v = 1 and w = 0
      and fromiso = sample_clock and s = 10 and e = 20]
  show "\<exists>r. get_part_chat (endless_post far_page) sample_clock 1 10 20 0 = Some r"
    by blast
next
  let ?post = "scripted_post [Inr sample_owner, Inr sample_metadata, Inr sample_owner,
         Inr sample_metadata, Inr early_page]"
  have "\<forall>st w1 len w2. get_video_start_time ?post 1 0 = (Inr st, w1) \<and>
       get_video_length ?post 1 w1 = (Inr len, w2) \<longrightarrow>
       (\<exists>n. all_page_ends ?post sample_clock 1 st (None, [], w2) n)"
  proof (intro allI impI, elim conjE)
    fix st w1 len w2
    assume "get_video_start_time ?post 1 0 = (Inr st, w1)"
    then have a: "st = JStr ''00:00''" "w1 = 2" by (simp_all add: metadata_scripted)
    assume "get_video_length ?post 1 w1 = (Inr len, w2)"
    with a have b: "w2 = 4" by (simp add: metadata_scripted)
    have "fetch ?post sample_clock 1 0 (JStr ''00:00'') None 4 =
        (read_page sample_clock early_page (JStr ''00:00''), 5)"
      by (simp add: fetch_scripted_offset eval_nat_numeral)
    then have "all_page_ends ?post sample_clock 1 st (None, [], w2) 0"
      by (auto simp: all_page_ends_def a b read_early_page)
    then show "\<exists>n. all_page_ends ?post sample_clock 1 st (None, [], w2) n" ..
  qed
  with retrieval_loops_terminate [where post = ?post and v = 1 and w = 0
      and fromiso = sample_clock]
  show "\<exists>r. get_all_chat ?post sample_clock 1 0 = Some r"
    by blast
qed

text \<open>
  C8 as stated fails for the unbounded loop: on the feed that answers every page request
  with a record at 30 seconds and \<^verbatim>\<open>hasNextPage\<close> true, the first fetch already yields
  a record beyond a bound of 20 seconds, and \<^verbatim>\<open>get_all_chat\<close> runs forever.
\<close>

theorem unbounded_loop_counterexample:
  "get_video_start_time (endless_post far_page) 1 0 = (Inr (JStr ''00:00''), 2) \<and>
   get_video_length (endless_post far_page) 1 2 = (Inr (JInt 3600), 4) \<and>
   all_page_closes (endless_post far_page) sample_clock 1 20 (JStr ''00:00'') (None, [], 4) 0 \<and>
   get_all_chat (endless_post far_page) sample_clock 1 0 = None"
proof (intro conjI)
  show s: "get_video_start_time (endless_post far_page) 1 0 = (Inr (JStr ''00:00''), 2)"
    by (simp add: metadata_endless numeral_2_eq_2)
  show l: "get_video_length (endless_post far_page) 1 2 = (Inr (JInt 3600), 4)"
    by (simp add: metadata_endless eval_nat_numeral)
  show "all_page_closes (endless_post far_page) sample_clock 1 20 (JStr ''00:00'') (None, [], 4) 0"
    by (auto simp: all_page_closes_def fetch_endless read_far_page page_closes_def sample_chat_def)
  show "get_all_chat (endless_post far_page) sample_clock 1 0 = None"
    by (simp add: get_all_chat_def s l all_loop_endless)
qed

text \<open>
  C9 as the code has it. The \<^verbatim>\<open>part_time\<close> of a fetched page is the
  \<^verbatim>\<open>contentOffsetSeconds\<close> field of the last raw edge of the response, read before the
  entries with a null commenter are dropped; it is not computed from the records.
\<close>

theorem part_time_is_last_raw_edge:
  assumes "get_chat_by_offset post fromiso v a_offset st w = (Inr p, w') \<or>
           get_chat_by_cursor post fromiso v a_cursor st w = (Inr p, w')"
  shows "\<exists>req w0 resp entries.
           (req = VideoCommentByOffsetReq v a_offset \<or> req = VideoCommentByCursorReq v a_cursor) \<and>
           post req w0 = (Inr resp, w') \<and> edges_of resp = Inr (JArr entries) \<and>
           entries \<noteq> [] \<and>
           getpath (last entries) [''node'', ''contentOffsetSeconds''] = Inr (part_time p)"
proof -
  from get_chat_Inr [OF assms] obtain req w0 resp where
    req: "req = VideoCommentByOffsetReq v a_offset \<or> req = VideoCommentByCursorReq v a_cursor" and
    post: "post req w0 = (Inr resp, w')" and
    page: "read_page fromiso resp st = Inr p" by blast
  from read_page_Inr [OF page] obtain entries where
    e: "edges_of resp = Inr (JArr entries)" "entries \<noteq> []"
      "getpath (last entries) [''node'', ''contentOffsetSeconds''] = Inr (part_time p)"
    by blast
  show ?thesis
    by (rule exI [of _ req], rule exI [of _ w0], rule exI [of _ resp],
        rule exI [of _ entries], intro conjI) (rule req post e)+
qed

text \<open>C9 as the code has it, at the sample page: the last raw edge reports 30.\<close>

theorem part_time_is_last_raw_edge_witness:
  "get_chat_by_cursor (scripted_post [Inr mixed_page]) sample_clock 1 ''c0'' (JStr ''00:00'') 0 =
     (Inr \<lparr>next_page = JBool False,
           chats = [sample_chat ''c1'' ''hi'' 5, sample_chat ''c3'' ''yo'' 15],
           part_time = JInt 30\<rparr>, 1) \<and>
   getpath (sample_edge ''c4'' JNull ''gone'' ''00:30'' 30) [''node'', ''contentOffsetSeconds''] =
     Inr (JInt 30)"
proof -
  let ?p = "\<lparr>next_page = JBool False,
           chats = [sample_chat ''c1'' ''hi'' 5, sample_chat ''c3'' ''yo'' 15],
           part_time = JInt 30\<rparr>"
  have run: "get_chat_by_cursor (scripted_post [Inr mixed_page]) sample_clock 1 ''c0''
      (JStr ''00:00'') 0 = (Inr ?p, 1)"
    by (simp add: get_chat_by_cursor_scripted read_mixed_page)
  from part_time_is_last_raw_edge [OF disjI2 [OF run], of 0] obtain req w0 resp entries where
    post: "scripted_post [Inr mixed_page] req w0 = (Inr resp, 1)" and
    e: "edges_of resp = Inr (JArr entries)" and
    t: "getpath (last entries) [''node'', ''contentOffsetSeconds''] = Inr (part_time ?p)"
    by blast
  from post have "resp = mixed_page" by (auto dest: scripted_post_Inr)
  with e have "last entries = sample_edge ''c4'' JNull ''gone'' ''00:30'' 30"
    by (auto simp: mixed_page_def edges_of_sample_comments)
  with t run show ?thesis by simp
qed

text \<open>
  C9 as stated fails on the sample page: its last raw edge has a null commenter and
  reports 30 seconds, so \<^verbatim>\<open>part_time\<close> is 30, while the last record of the page is the
  one at 15 seconds.
\<close>

theorem part_time_not_last_record_counterexample:
  "get_chat_by_offset (scripted_post [Inr mixed_page]) sample_clock 1 0 (JStr ''00:00'') 0 =
     (Inr \<lparr>next_page = JBool False,
           chats = [sample_chat ''c1'' ''hi'' 5, sample_chat ''c3'' ''yo'' 15],
           part_time = JInt 30\<rparr>, 1) \<and>
   offset (last [sample_chat ''c1'' ''hi'' 5, sample_chat ''c3'' ''yo'' 15]) = 15"
  by (simp add: get_chat_by_offset_scripted read_mixed_page sample_chat_def)

text \<open>
  C10. Let a response have the edge list \<open>entries\<close> and the \<^verbatim>\<open>hasNextPage\<close> flag
  \<open>flag\<close>, and let the list be empty, or the flag be true and every entry have a null
  commenter (the last one reporting a numeric trailing offset). When the request of a
  pass of either retrieval loop is answered with this response, the loop ends with
  IndexError instead of going on to the next page: an empty edge list has no last edge
  to take the trailing offset from (line 140), and a page without records has no last
  record to take the cursor from (lines 212 and 187).
\<close>

theorem empty_page_raises_index_error:
  assumes "edges_of resp = Inr (JArr entries)" and "has_next_page_of resp = Inr flag"
    and "entries = [] \<or>
         (truthy flag \<and> (\<forall>i\<in>set entries. commenter_of i = Inr JNull) \<and>
          getpath (last entries) [''node'', ''contentOffsetSeconds''] = Inr pt \<and> is_number pt)"
  shows "(post (request_for v s cur) w = (Inr resp, w') \<longrightarrow>
            part_loop post fromiso v s e st (cur, res, w) = Some (Inl IndexError, w')) \<and>
         (post (request_for v 0 cur) w = (Inr resp, w') \<longrightarrow>
            all_loop post fromiso v st (cur, res, w) = Some (Inl IndexError, w'))"
proof -
  let ?page = "\<lparr>next_page = flag, chats = [], part_time = pt\<rparr>"
  have r: "read_page fromiso resp st = Inl IndexError \<or>
      (read_page fromiso resp st = Inr ?page \<and> truthy flag \<and> is_number pt)"
    using assms read_page_empty [of resp flag fromiso st]
      read_page_all_null [of resp entries flag pt fromiso st] by blast
  have p: "part_body post fromiso v s e st (cur, res, w) = Leave (Inl IndexError, w')"
    if "post (request_for v s cur) w = (Inr resp, w')"
    using r
  proof (elim disjE conjE)
    assume "read_page fromiso resp st = Inl IndexError"
    with fetch_post [where post = post and fromiso = fromiso and st = st, OF that]
    have "fetch post fromiso v s st cur w = (Inl IndexError, w')" by simp
    then show ?thesis by (rule part_body_error)
  next
    assume "read_page fromiso resp st = Inr ?page" and t: "truthy flag" "is_number pt"
    with fetch_post [where post = post and fromiso = fromiso and st = st, OF that]
    have "fetch post fromiso v s st cur w = (Inr ?page, w')" by simp
    from part_body_page [OF this] t show ?thesis by simp
  qed
  have a: "all_body post fromiso v st (cur, res, w) = Leave (Inl IndexError, w')"
    if "post (request_for v 0 cur) w = (Inr resp, w')"
    using r
  proof (elim disjE conjE)
    assume "read_page fromiso resp st = Inl IndexError"
    with fetch_post [where post = post and fromiso = fromiso and st = st, OF that]
    have "fetch post fromiso v 0 st cur w = (Inl IndexError, w')" by simp
    then show ?thesis by (rule all_body_error)
  next
    assume "read_page fromiso resp st = Inr ?page" and t: "truthy flag" "is_number pt"
    with fetch_post [where post = post and fromiso = fromiso and st = st, OF that]
    have "fetch post fromiso v 0 st cur w = (Inr ?page, w')" by simp
    from all_body_page [OF this] t show ?thesis by simp
  qed
  show ?thesis
  proof (intro conjI impI)
    assume "post (request_for v s cur) w = (Inr resp, w')"
    from p [OF this] show "part_loop post fromiso v s e st (cur, res, w) = Some (Inl IndexError, w')"
      by (subst part_loop.simps) simp
  next
    assume "post (request_for v 0 cur) w = (Inr resp, w')"
    from a [OF this] show "all_loop post fromiso v st (cur, res, w) = Some (Inl IndexError, w')"
      by (subst all_loop.simps) simp
  qed
qed

text \<open>
  C10 at two sample feeds: a page whose only entry has a null commenter, given to
  \<^verbatim>\<open>get_part_chat\<close>, and a page with an empty edge list, given to \<^verbatim>\<open>get_all_chat\<close>.
\<close>

theorem empty_page_raises_index_error_witness:
  "get_part_chat (scripted_post [Inr sample_owner, Inr sample_metadata, Inr null_page])
     sample_clock 1 10 20 0 = Some (Inl IndexError, 3) \<and>
   get_all_chat
     (scripted_post [Inr sample_owner, Inr sample_metadata, Inr sample_owner,
        Inr sample_metadata, Inr empty_page])
     sample_clock 1 0 = Some (Inl IndexError, 5)"
proof
  let ?post = "scripted_post [Inr sample_owner, Inr sample_metadata, Inr null_page]"
  have "edges_of null_page = Inr (JArr [sample_edge ''c1'' JNull ''x'' ''00:05'' 5])"
    and "has_next_page_of null_page = Inr (JBool True)"
    and "[sample_edge ''c1'' JNull ''x'' ''00:05'' 5] = [] \<or>
         (truthy (JBool True) \<and>
          (\<forall>i\<in>set [sample_edge ''c1'' JNull ''x'' ''00:05'' 5]. commenter_of i = Inr JNull) \<and>
          getpath (last [sample_edge ''c1'' JNull ''x'' ''00:05'' 5])
            [''node'', ''contentOffsetSeconds''] = Inr (JInt 5) \<and> is_number (JInt 5))"
    by (simp_all add: null_page_def edges_of_sample_comments has_next_page_of_sample_comments
        commenter_of_sample_edge) (simp add: sample_edge_def)
  from empty_page_raises_index_error [OF this, where post = ?post and v = 1 and s = 10
      and cur = None and w = 2 and w' = 3 and fromiso = sample_clock and e = 20
      and st = "JStr ''00:00''" and res = "[]"]
  have "part_loop ?post sample_clock 1 10 20 (JStr ''00:00'') (None, [], 2) =
      Some (Inl IndexError, 3)"
    by (simp add: request_for_def scripted_post_def numeral_2_eq_2 numeral_3_eq_3)
  then show "get_part_chat ?post sample_clock 1 10 20 0 = Some (Inl IndexError, 3)"
    by (simp add: get_part_chat_def start_time_scripted)
next
  let ?post = "scripted_post [Inr sample_owner, Inr sample_metadata, Inr sample_owner,
        Inr sample_metadata, Inr empty_page]"
  have "edges_of empty_page = Inr (JArr [])"
    and "has_next_page_of empty_page = Inr (JBool True)"
    and "([] :: json list) = [] \<or>
         (truthy (JBool True) \<and>
          (\<forall>i\<in>set []. commenter_of i = Inr JNull) \<and>
          getpath (last []) [''node'', ''contentOffsetSeconds''] = Inr JNull \<and> is_number JNull)"
    by (simp_all add: empty_page_def edges_of_sample_comments has_next_page_of_sample_comments)
  from empty_page_raises_index_error [OF this, where post = ?post and v = 1
      and cur = None and w = 4 and w' = 5 and fromiso = sample_clock
      and st = "JStr ''00:00''" and res = "[]"]
  have "all_loop ?post sample_clock 1 (JStr ''00:00'') (None, [], 4) =
      Some (Inl IndexError, 5)"
    by (simp add: request_for_def scripted_post_def eval_nat_numeral)
  then show "get_all_chat ?post sample_clock 1 0 = Some (Inl IndexError, 5)"
    by (simp add: get_all_chat_def metadata_scripted)
qed

end
